theory Spec2Isabelle
  imports Main
begin

section \<open>Values shared by the classes of entrypoint.py\<close>

text \<open>
  Python strings are modelled as \<open>string\<close>. The exceptions that the modelled code can let
  escape are the constructors of \<open>error\<close>; a function that can raise returns \<open>error + 'a\<close>
  with \<open>Inl\<close> for the exception.
\<close>

datatype error =
    KeyError string
  | TypeError string
  | NameError string
  | FileNotFoundError string
  | AttributeError string

text \<open>What a Python call hands back: \<open>None\<close> or a \<open>bool\<close>.\<close>

datatype pyval = PyNone | PyBool bool

text \<open>Truth value of a returned object, as \<open>if result\<close> and \<open>not result\<close> read it.\<close>

fun truthy :: "pyval \<Rightarrow> bool" where
  "truthy PyNone = False"
| "truthy (PyBool b) = b"

text \<open>
  A configuration value that is either one string or a list of strings; the code turns
  the former into a one-element list (\<open>if type(patterns) == str: patterns = [patterns]\<close>).
\<close>

datatype strs = Str string | StrList "string list"

fun as_list :: "strs \<Rightarrow> string list" where
  "as_list (Str s) = [s]"
| "as_list (StrList l) = l"

section \<open>Printer\<close>

definition ESC :: char where
  "ESC = CHR 0x1B"

definition NL :: char where
  "NL = CHR 0x0A"

text \<open>The class attribute \<open>ANSI_TO_HTML\<close>: a dict of dicts keyed by one-character strings.\<close>

definition ANSI_TO_HTML :: "string \<rightharpoonup> (string \<rightharpoonup> string)" where
  "ANSI_TO_HTML = map_of
     [(''0'', map_of
         [(''0'', ''black''), (''1'', ''darkred''), (''2'', ''green''), (''3'', ''orange''),
          (''4'', ''darkblue''), (''5'', ''purple''), (''6'', ''lightblue''),
          (''7'', ''lightgrey'')]),
      (''1'', map_of
         [(''0'', ''black''), (''1'', ''red''), (''2'', ''lightgreen''), (''3'', ''yellow''),
          (''4'', ''blue''), (''5'', ''magenta''), (''6'', ''cyan''), (''7'', ''white'')])]"

text \<open>
  \<open>_ansiToHTML\<close>, applied to the two groups of a match: a failed lookup in either dict is
  the \<open>KeyError\<close> that the method catches, returning the empty string.
\<close>

definition ansiToHTML :: "string \<Rightarrow> string \<Rightarrow> string" where
  "ansiToHTML g1 g2 =
     (case ANSI_TO_HTML g1 of
        None \<Rightarrow> ''''
      | Some row \<Rightarrow>
          (case row g2 of
             None \<Rightarrow> ''''
           | Some color \<Rightarrow> ''</span><span style='color: '' @ color @ CHR 0x27 # ''>''))"

text \<open>
  Whether the text starts with a match of the pattern \<open>\x1b\[(0|1);3(.)m\<close>; the two groups
  are returned. The dot matches every character but a newline.
\<close>

definition color_match :: "string \<Rightarrow> (string \<times> string) option" where
  "color_match s =
     (case s of
        e # b # g1 # sc # t # g2 # m # _ \<Rightarrow>
          if e = ESC \<and> b = CHR ''['' \<and> (g1 = CHR ''0'' \<or> g1 = CHR ''1'') \<and> sc = CHR '';''
               \<and> t = CHR ''3'' \<and> g2 \<noteq> NL \<and> m = CHR ''m''
          then Some ([g1], [g2]) else None
      | _ \<Rightarrow> None)"

text \<open>
  \<open>re.sub('\x1b\[(0|1);3(.)m', self._ansiToHTML, message)\<close>: the leftmost matches, not
  overlapping, each replaced by what the method returns for it.
\<close>

fun sub_color :: "string \<Rightarrow> string" where
  "sub_color [] = []"
| "sub_color (c # cs) =
     (case color_match (c # cs) of
        Some (g1, g2) \<Rightarrow> ansiToHTML g1 g2 @ sub_color (drop 6 cs)
      | None \<Rightarrow> c # sub_color cs)"

definition reset_tag :: string where
  "reset_tag = ''</span><span style='color: lightgrey'>''"

definition reset_match :: "string \<Rightarrow> bool" where
  "reset_match s =
     (case s of
        e # b # z # m # _ \<Rightarrow> e = ESC \<and> b = CHR ''['' \<and> z = CHR ''0'' \<and> m = CHR ''m''
      | _ \<Rightarrow> False)"

text \<open>\<open>re.sub('\x1b\[0m', "</span><span style='color: lightgrey'>", html_msg)\<close>.\<close>

fun sub_reset :: "string \<Rightarrow> string" where
  "sub_reset [] = []"
| "sub_reset (c # cs) =
     (if reset_match (c # cs) then reset_tag @ sub_reset (drop 3 cs)
      else c # sub_reset cs)"

text \<open>Both substitutions, one after the other: all colour codes rewritten to tags.\<close>

definition rewrite_codes :: "string \<Rightarrow> string" where
  "rewrite_codes message = sub_reset (sub_color message)"

text \<open>The message sent to the web socket for a line of output.\<close>

definition html_msg :: "string \<Rightarrow> string" where
  "html_msg message =
     ''<span style='color: lightgrey;'>'' @ rewrite_codes message @ ''</span>''"

text \<open>
  The web socket a Printer may hold: whether it is closed, and the \<open>output\<close> fields of the
  JSON messages sent over it so far.
\<close>

record websocket =
  closed :: bool
  sent :: "string list"

section \<open>What the program reads from its surroundings\<close>

text \<open>A subprocess is started from an argument vector, or from a line given to the shell.\<close>

datatype command = Argv "string list" | Shell string

fun program :: "command \<Rightarrow> string" where
  "program (Argv []) = []"
| "program (Argv (p # _)) = p"
| "program (Shell _) = ''/bin/sh''"

text \<open>The \<open>CompletedProcess\<close> that \<open>subprocess.run\<close> returns; its output is taken as decoded.\<close>

record completed =
  returncode :: int
  stdout :: string

text \<open>
  \<open>CompletedProcess\<close> defines neither \<open>__bool__\<close> nor \<open>__len__\<close>, so every instance
  counts as true in a condition, whatever its return code.
\<close>

definition completed_truthy :: "completed \<Rightarrow> bool" where
  "completed_truthy c = True"

text \<open>
  Everything outside the process is a parameter of the model:
  \<^item> \<open>glob\<close>: what \<open>glob.glob(pattern, recursive = True)\<close> returns for a pattern;
  \<^item> \<open>git_diff\<close>, \<open>git_ls_files\<close>: the results of the two git commands, \<open>None\<close> when git
    cannot be started (\<open>subprocess.run\<close> then raises \<open>FileNotFoundError\<close>);
  \<^item> \<open>mkstemp\<close>: the path of the file that \<open>tempfile.mkstemp\<close> creates, given the files
    that exist;
  \<^item> \<open>spawn\<close>: for a command and the files that exist, \<open>None\<close> when the program cannot be
    started, else the lines it prints, its return code and the files that exist when
    it has exited.
\<close>

record env =
  glob :: "string \<Rightarrow> string list"
  git_diff :: "completed option"
  git_ls_files :: "completed option"
  mkstemp :: "string set \<Rightarrow> string"
  spawn :: "command \<Rightarrow> string set \<Rightarrow> (string list \<times> int \<times> string set) option"

section \<open>The configuration\<close>

text \<open>
  A step of the configuration is a dict with the optional keys \<open>patterns\<close>, \<open>profile\<close> and
  \<open>script\<close>; the configuration has the optional keys \<open>patterns\<close> and \<open>steps\<close>. A YAML
  mapping is kept as the list of its items, in the order of the document.
\<close>

record step =
  step_patterns :: "strs option"
  profile :: "string option"
  script :: "string option"

record config =
  cfg_patterns :: "(string \<times> strs) list option"
  cfg_steps :: "(string \<times> step) list option"

section \<open>FileCollection\<close>

text \<open>
  The object is a dict (\<open>files\<close>, from pattern name to file list) with the attributes
  \<open>patterns\<close> and \<open>changed_only\<close>.
\<close>

record file_collection =
  patterns :: "(string \<times> strs) list"
  changed_only :: bool
  files :: "string \<rightharpoonup> string list"

definition FileCollection :: "config \<Rightarrow> bool \<Rightarrow> file_collection" where
  "FileCollection config co =
     (let ps = (case cfg_patterns config of Some p \<Rightarrow> p | None \<Rightarrow> [])
      in \<lparr>patterns = ps, changed_only = co,
          files = fold (\<lambda>(pattern_name, _) d. d(pattern_name \<mapsto> [])) ps Map.empty\<rparr>)"

definition setChangedOnly :: "bool \<Rightarrow> file_collection \<Rightarrow> file_collection" where
  "setChangedOnly co fc = fc\<lparr>changed_only := co\<rparr>"

text \<open>\<open>str.split(sep)\<close> for a one-character separator: never an empty list.\<close>

fun split :: "char \<Rightarrow> string \<Rightarrow> string list" where
  "split sep [] = [[]]"
| "split sep (c # cs) =
     (if c = sep then [] # split sep cs
      else (case split sep cs of
              w # ws \<Rightarrow> (c # w) # ws
            | [] \<Rightarrow> [[c]]))"

text \<open>
  The loops of \<open>resolve\<close> work on the dict and on two local lists: \<open>changed_files\<close>, which
  is bound only if the \<open>if committed and uncommitted\<close> branch ran, and \<open>combined\<close>, which
  only the full scan binds and uses.
\<close>

type_synonym walk = "(string \<rightharpoonup> string list) \<times> string list option \<times> string list"

text \<open>
  The body of the innermost loop, for one file name that glob returned. It returns the
  exception, if one is raised, beside the variables as they are then.
\<close>

definition visit :: "bool \<Rightarrow> string \<Rightarrow> string \<Rightarrow> walk \<Rightarrow> error option \<times> walk" where
  "visit co pattern_name file_name w =
     (case w of (d, changed_files, combined) \<Rightarrow>
        if co then
          (case changed_files of
             None \<Rightarrow> (Some (NameError ''changed_files''), w)
           | Some ch \<Rightarrow>
               if file_name \<in> set ch then
                 (case d pattern_name of
                    None \<Rightarrow> (Some (KeyError pattern_name), w)
                  | Some l \<Rightarrow>
                      (None, (d(pattern_name \<mapsto> l @ [file_name]),
                              Some (remove1 file_name ch), combined)))
               else (None, w))
        else
          if file_name \<notin> set combined then
            (case d pattern_name of
               None \<Rightarrow> (Some (KeyError pattern_name), w)
             | Some l \<Rightarrow>
                 (None, (d(pattern_name \<mapsto> l @ [file_name]), changed_files,
                         combined @ [file_name])))
          else (None, w))"

text \<open>\<open>for file_name in glob.glob(pattern, recursive = True)\<close>\<close>

fun for_file_name :: "bool \<Rightarrow> string \<Rightarrow> string list \<Rightarrow> walk \<Rightarrow> error option \<times> walk" where
  "for_file_name co pattern_name [] w = (None, w)"
| "for_file_name co pattern_name (file_name # rest) w =
     (case visit co pattern_name file_name w of
        (Some e, w') \<Rightarrow> (Some e, w')
      | (None, w') \<Rightarrow> for_file_name co pattern_name rest w')"

text \<open>\<open>for pattern in patterns\<close>\<close>

fun for_pattern ::
  "(string \<Rightarrow> string list) \<Rightarrow> bool \<Rightarrow> string \<Rightarrow> string list \<Rightarrow> walk \<Rightarrow> error option \<times> walk" where
  "for_pattern g co pattern_name [] w = (None, w)"
| "for_pattern g co pattern_name (pattern # rest) w =
     (case for_file_name co pattern_name (g pattern) w of
        (Some e, w') \<Rightarrow> (Some e, w')
      | (None, w') \<Rightarrow> for_pattern g co pattern_name rest w')"

text \<open>\<open>for pattern_name in self.patterns\<close>\<close>

fun for_pattern_name ::
  "(string \<Rightarrow> string list) \<Rightarrow> bool \<Rightarrow> (string \<times> strs) list \<Rightarrow> walk \<Rightarrow> error option \<times> walk" where
  "for_pattern_name g co [] w = (None, w)"
| "for_pattern_name g co ((pattern_name, ps) # rest) w =
     (case for_pattern g co pattern_name (as_list ps) w of
        (Some e, w') \<Rightarrow> (Some e, w')
      | (None, w') \<Rightarrow> for_pattern_name g co rest w')"

text \<open>The list that the change set starts from: both listings, split at newlines.\<close>

definition listing :: "completed \<Rightarrow> completed \<Rightarrow> string list" where
  "listing committed uncommitted = split NL (stdout committed) @ split NL (stdout uncommitted)"

text \<open>
  \<open>resolve\<close> returns nothing; the result here is the exception it raised, if any, and
  the object as the call leaves it.
\<close>

definition resolve :: "env \<Rightarrow> file_collection \<Rightarrow> error option \<times> file_collection" where
  "resolve os self =
     (let cleared = (\<lambda>pattern_name. map_option (\<lambda>_. []) (files self pattern_name));
          self1 = self\<lparr>files := cleared\<rparr>
      in if changed_only self then
           (case git_diff os of
              None \<Rightarrow> (Some (FileNotFoundError ''git''), self1)
            | Some committed \<Rightarrow>
                (case git_ls_files os of
                   None \<Rightarrow> (Some (FileNotFoundError ''git''), self1)
                 | Some uncommitted \<Rightarrow>
                     (let changed_files =
                            (if completed_truthy committed \<and> completed_truthy uncommitted
                             then Some (listing committed uncommitted) else None)
                      in case for_pattern_name (glob os) True (patterns self)
                                (cleared, changed_files, []) of
                           (r, (d, _, _)) \<Rightarrow> (r, self\<lparr>files := d\<rparr>))))
         else
           (case for_pattern_name (glob os) False (patterns self) (cleared, None, []) of
              (r, (d, _, _)) \<Rightarrow> (r, self\<lparr>files := d\<rparr>)))"

section \<open>StepExecutor\<close>

text \<open>
  \<open>self.steps\<close> is the dict of the configuration's \<open>steps\<close>, or the empty list when the
  configuration has none (\<open>self.steps = []\<close>).
\<close>

datatype steps_attr = StepsDict "(string \<times> step) list" | EmptyList

record step_executor =
  steps :: steps_attr
  debug :: bool

definition StepExecutor :: "config \<Rightarrow> step_executor" where
  "StepExecutor config =
     \<lparr>steps = (case cfg_steps config of Some d \<Rightarrow> StepsDict d | None \<Rightarrow> EmptyList),
      debug = False\<rparr>"

definition setDebugging :: "bool \<Rightarrow> step_executor \<Rightarrow> step_executor" where
  "setDebugging dbg self = self\<lparr>debug := dbg\<rparr>"

text \<open>\<open>self.steps.keys()\<close>: a list has no such attribute.\<close>

definition getSteps :: "step_executor \<Rightarrow> error + string list" where
  "getSteps self =
     (case steps self of
        StepsDict d \<Rightarrow> Inr (map fst d)
      | EmptyList \<Rightarrow> Inl (AttributeError ''keys''))"

text \<open>\<open>self.steps[step_name]\<close>: a missing key of the dict, or a string as index of the list.\<close>

definition steps_item :: "steps_attr \<Rightarrow> string \<Rightarrow> error + step" where
  "steps_item st step_name =
     (case st of
        StepsDict d \<Rightarrow>
          (case map_of d step_name of
             None \<Rightarrow> Inl (KeyError step_name)
           | Some stp \<Rightarrow> Inr stp)
      | EmptyList \<Rightarrow> Inl (TypeError ''list indices must be integers or slices, not str''))"

text \<open>
  What a run changes: the objects the executor refers to (its file collection, the
  socket of its printer) and the process's surroundings (the terminal, the environment
  variables, the files that exist, the subprocesses started so far).
\<close>

record state =
  file_collection :: file_collection
  socket :: "websocket option"
  console :: "string list"
  environ :: "string \<rightharpoonup> string"
  disk :: "string set"
  launched :: "command list"

definition setSocket :: "websocket option \<Rightarrow> state \<Rightarrow> state" where
  "setSocket ws s = s\<lparr>socket := ws\<rparr>"

text \<open>\<open>Printer.write\<close>\<close>

definition printer_write :: "string \<Rightarrow> state \<Rightarrow> state" where
  "printer_write message s =
     (let s1 = s\<lparr>console := console s @ [message]\<rparr>
      in case socket s1 of
           None \<Rightarrow> s1
         | Some ws \<Rightarrow>
             if \<not> closed ws
             then s1\<lparr>socket := Some (ws\<lparr>sent := sent ws @ [html_msg message]\<rparr>)\<rparr>
             else s1)"

text \<open>
  \<open>_popen\<close>: start the subprocess, write each line it prints, return its return code.
  \<open>subprocess.Popen\<close> raises when the program cannot be started.
\<close>

definition popen :: "env \<Rightarrow> command \<Rightarrow> state \<Rightarrow> (error + int) \<times> state" where
  "popen os cmd s =
     (case spawn os cmd (disk s) of
        None \<Rightarrow> (Inl (FileNotFoundError (program cmd)), s)
      | Some (lines, rc, disk') \<Rightarrow>
          (Inr rc, (fold printer_write lines (s\<lparr>launched := launched s @ [cmd]\<rparr>))\<lparr>disk := disk'\<rparr>))"

text \<open>\<open>os.unlink\<close>\<close>

definition unlink :: "string \<Rightarrow> state \<Rightarrow> (error + unit) \<times> state" where
  "unlink path s =
     (if path \<in> disk s then (Inr (), s\<lparr>disk := disk s - {path}\<rparr>)
      else (Inl (FileNotFoundError path), s))"

text \<open>\<open>sep.join(xs)\<close>\<close>

fun join :: "string \<Rightarrow> string list \<Rightarrow> string" where
  "join sep [] = []"
| "join sep [x] = x"
| "join sep (x # y # ys) = x @ sep @ join sep (y # ys)"

definition validator_warning :: string where
  "validator_warning =
     [ESC] @ ''[0;33mThere was an error running the validator. Re-run with the --debug option to see the output.''
       @ [ESC] @ ''[0m''"

text \<open>
  \<open>_runValidator\<close>. The name \<open>out_file\<close> is first bound to what \<open>mkstemp\<close> returns and then
  to the string \<open>'output.xml'\<close>, so that \<open>out_file[1]\<close> is the second character of that
  string.
\<close>

definition runValidator ::
  "env \<Rightarrow> step_executor \<Rightarrow> string \<Rightarrow> string list \<Rightarrow> state \<Rightarrow> (error + bool) \<times> state" where
  "runValidator os self prof fs s =
     (let s0 = s\<lparr>disk := insert (mkstemp os (disk s)) (disk s)\<rparr>;
          out_file = ''output.xml'';
          cmd = Argv ([''java'', ''-jar'', ''validator_cli.jar'',
                       ''-ig'', ''qa'', ''-ig'', ''resources'', ''-recurse'',
                       ''-profile'', prof,
                       ''-output'', [out_file ! 1]] @ fs)
      in case popen os cmd s0 of
           (Inl e, s1) \<Rightarrow> (Inl e, s1)
         | (Inr result_validator, s1) \<Rightarrow>
             (case (if result_validator \<noteq> 0 then
                      (case popen os (Argv [''python3'', ''../hl7-validator-action/analyze_results.py'',
                                            ''--colorize'', ''--fail-at'', ''error'',
                                            ''--ignored-issues'', ''known-issues.yml'',
                                            [out_file ! 1]]) s1 of
                         (Inl e, s2) \<Rightarrow> (Inl e, s2)
                       | (Inr result, s2) \<Rightarrow> (Inr (result \<noteq> 0), s2))
                    else if \<not> debug self then (Inr False, printer_write validator_warning s1)
                    else (Inr False, s1)) of
                (Inl e, s2) \<Rightarrow> (Inl e, s2)
              | (Inr success, s2) \<Rightarrow>
                  (case unlink [out_file ! 1] s2 of
                     (Inl e, s3) \<Rightarrow> (Inl e, s3)
                   | (Inr _, s3) \<Rightarrow> (Inr success, s3))))"

text \<open>\<open>_runExternalCommand\<close>\<close>

definition runExternalCommand ::
  "env \<Rightarrow> string \<Rightarrow> string list \<Rightarrow> state \<Rightarrow> (error + bool) \<times> state" where
  "runExternalCommand os cmd fs s =
     (case popen os (Shell (cmd @ '' '' @ join '' '' fs)) s of
        (Inl e, s') \<Rightarrow> (Inl e, s')
      | (Inr result, s') \<Rightarrow> (Inr (result = 0), s'))"

text \<open>\<open>for pattern in patterns: files += self.file_collection[pattern]\<close>\<close>

fun gather :: "(string \<rightharpoonup> string list) \<Rightarrow> string list \<Rightarrow> string list \<Rightarrow> error + string list" where
  "gather d [] fs = Inr fs"
| "gather d (pattern # rest) fs =
     (case d pattern of
        None \<Rightarrow> Inl (KeyError pattern)
      | Some l \<Rightarrow> gather d rest (fs @ l))"

text \<open>
  The files of a step: none without the key \<open>patterns\<close>, else those of its pattern names,
  one name after the other.
\<close>

definition step_files :: "step \<Rightarrow> (string \<rightharpoonup> string list) \<Rightarrow> error + string list" where
  "step_files stp d =
     (case step_patterns stp of
        None \<Rightarrow> Inr []
      | Some ps \<Rightarrow> gather d (as_list ps) [])"

text \<open>The heading written when a step starts.\<close>

definition heading :: "string \<Rightarrow> string" where
  "heading step_name = [ESC] @ ''[1;37m+++ '' @ step_name @ [ESC] @ ''[0m''"

text \<open>How one pass through the body of the loop over the step names ends.\<close>

datatype flow = Continue bool | Return pyval | Raise error

definition step_body ::
  "env \<Rightarrow> step_executor \<Rightarrow> string \<Rightarrow> bool \<Rightarrow> state \<Rightarrow> flow \<times> state" where
  "step_body os self step_name overall_success s =
     (case steps_item (steps self) step_name of
        Inl e \<Rightarrow> (Raise e, s)
      | Inr stp \<Rightarrow>
          (let s1 = printer_write (heading step_name) s
           in case step_files stp (files (file_collection s1)) of
                Inl e \<Rightarrow> (Raise e, s1)
              | Inr fs \<Rightarrow>
                  if length fs = 0 then
                    (Return (PyBool True), printer_write ''Nothing to check, skipping'' s1)
                  else
                    (case profile stp of
                       Some prof \<Rightarrow>
                         (case runValidator os self prof fs s1 of
                            (Inl e, s2) \<Rightarrow> (Raise e, s2)
                          | (Inr b, s2) \<Rightarrow> (Continue (overall_success \<and> b), s2))
                     | None \<Rightarrow>
                         (case script stp of
                            Some cmd \<Rightarrow>
                              (case runExternalCommand os cmd fs s1 of
                                 (Inl e, s2) \<Rightarrow> (Raise e, s2)
                               | (Inr b, s2) \<Rightarrow> (Continue (overall_success \<and> b), s2))
                          | None \<Rightarrow> (Continue overall_success, s1)))))"

text \<open>\<open>for step_name in step_names\<close>\<close>

fun for_step_name ::
  "env \<Rightarrow> step_executor \<Rightarrow> string list \<Rightarrow> bool \<Rightarrow> state \<Rightarrow> flow \<times> state" where
  "for_step_name os self [] overall_success s = (Continue overall_success, s)"
| "for_step_name os self (step_name # rest) overall_success s =
     (case step_body os self step_name overall_success s of
        (Continue overall_success', s') \<Rightarrow> for_step_name os self rest overall_success' s'
      | (Return v, s') \<Rightarrow> (Return v, s')
      | (Raise e, s') \<Rightarrow> (Raise e, s'))"

text \<open>The two assignments to \<open>os.environ\<close> at the start of \<open>execute\<close>.\<close>

definition set_environ :: "step_executor \<Rightarrow> state \<Rightarrow> state" where
  "set_environ self s =
     (let s1 = s\<lparr>environ := (environ s)(''debug'' \<mapsto> (if debug self then ''1'' else ''0''))\<rparr>
      in s1\<lparr>environ := (environ s1)(''changed_only'' \<mapsto>
                (if changed_only (file_collection s1) then ''1'' else ''0''))\<rparr>)"

text \<open>The two summary lines.\<close>

definition summary :: "bool \<Rightarrow> string" where
  "summary overall_success =
     (if overall_success then ''All checks finished succesfully''
      else ''Not all checks finished successfully'')"

text \<open>
  \<open>execute\<close>. After the loop the summary line is written and the function ends without a
  \<open>return\<close> statement, so the call evaluates to \<open>None\<close>.
\<close>

definition execute ::
  "env \<Rightarrow> step_executor \<Rightarrow> string list \<Rightarrow> state \<Rightarrow> (error + pyval) \<times> state" where
  "execute os self step_names s =
     (let s2 = set_environ self s
      in case resolve os (file_collection s2) of
           (Some e, fc) \<Rightarrow> (Inl e, s2\<lparr>file_collection := fc\<rparr>)
         | (None, fc) \<Rightarrow>
             (case for_step_name os self step_names True (s2\<lparr>file_collection := fc\<rparr>) of
                (Raise e, s3) \<Rightarrow> (Inl e, s3)
              | (Return v, s3) \<Rightarrow> (Inr v, s3)
              | (Continue overall_success, s3) \<Rightarrow>
                  (Inr PyNone, printer_write (summary overall_success) s3)))"

text \<open>
  The callers read the result as a truth value: the command line exits with status 1 if
  \<open>not result\<close>, the web interface reports \<open>"success" if result else "failure"\<close>.
\<close>

definition exit_status :: "pyval \<Rightarrow> int" where
  "exit_status result = (if \<not> truthy result then 1 else 0)"

definition reported_status :: "pyval \<Rightarrow> string" where
  "reported_status result = (if truthy result then ''success'' else ''failure'')"

section \<open>A concrete configuration and surroundings\<close>

text \<open>
  A configuration with two pattern groups and two steps, one running a script and one
  validating against a profile.
\<close>

definition scenario_config :: config where
  "scenario_config =
     \<lparr>cfg_patterns = Some [(''unit'', Str ''**/*.py''),
                           (''fhir'', StrList [''resources/**/*.xml''])],
      cfg_steps = Some
        [(''lint'', \<lparr>step_patterns = Some (StrList [''unit'']), profile = None,
                     script = Some ''pylint''\<rparr>),
         (''validate'', \<lparr>step_patterns = Some (Str ''fhir''),
                         profile = Some ''http://example.org/fhir/StructureDefinition/p'',
                         script = None\<rparr>)]\<rparr>"

text \<open>
  Surroundings with one Python file and one resource, both reported by \<open>git diff\<close> with
  the given return code of git. The script, the validator and the analysis exit with the
  given codes; the validator writes the file named after \<open>-output\<close>, here \<open>u\<close>.
\<close>

definition scenario_env :: "int \<Rightarrow> int \<Rightarrow> int \<Rightarrow> int \<Rightarrow> env" where
  "scenario_env rc_git rc_script rc_validator rc_analysis =
     \<lparr>glob = (\<lambda>pattern.
                if pattern = ''**/*.py'' then [''util/a.py'']
                else if pattern = ''resources/**/*.xml'' then [''resources/p.xml'']
                else []),
      git_diff = Some \<lparr>returncode = rc_git,
                        stdout = (if rc_git = 0 then ''util/a.py\<newline>resources/p.xml\<newline>'' else [])\<rparr>,
      git_ls_files = Some \<lparr>returncode = rc_git, stdout = []\<rparr>,
      mkstemp = (\<lambda>existing. ''/tmp/tmpk3v9.xml''),
      spawn = (\<lambda>cmd existing.
                 case cmd of
                   Shell line \<Rightarrow> Some ([''checking\<newline>''], rc_script, existing)
                 | Argv argv \<Rightarrow>
                     if program cmd = ''java'' then Some ([], rc_validator, insert ''u'' existing)
                     else Some ([], rc_analysis, existing))\<rparr>"

definition scenario_state :: "bool \<Rightarrow> state" where
  "scenario_state co =
     \<lparr>file_collection = FileCollection scenario_config co, socket = None, console = [],
      environ = Map.empty, disk = {}, launched = []\<rparr>"

section \<open>Notions used to state the properties\<close>

text \<open>The file names that glob returns for the patterns of one group, in the order visited.\<close>

definition matched :: "(string \<Rightarrow> string list) \<Rightarrow> strs \<Rightarrow> string list" where
  "matched g ps = concat (map g (as_list ps))"

text \<open>What the two git commands report together; nothing when git cannot be started.\<close>

definition reported :: "env \<Rightarrow> string list" where
  "reported os =
     (case git_diff os of
        None \<Rightarrow> []
      | Some committed \<Rightarrow>
          (case git_ls_files os of
             None \<Rightarrow> []
           | Some uncommitted \<Rightarrow> listing committed uncommitted))"

text \<open>
  A configuration whose first group has two patterns that match the same file, which the
  second group matches too; both git listings name that file.
\<close>

definition overlap_config :: config where
  "overlap_config =
     \<lparr>cfg_patterns = Some [(''unit'', StrList [''*.py'', ''a.*'']), (''docs'', Str ''a.*'')],
      cfg_steps = Some
        [(''lint'', \<lparr>step_patterns = Some (Str ''unit''), profile = None,
                     script = Some ''pylint''\<rparr>)]\<rparr>"

definition overlap_env :: env where
  "overlap_env =
     \<lparr>glob = (\<lambda>pattern.
                if pattern = ''*.py'' then [''a.py'', ''b.py'']
                else if pattern = ''a.*'' then [''a.py'', ''a.txt'']
                else []),
      git_diff = Some \<lparr>returncode = 0, stdout = ''a.py\<newline>''\<rparr>,
      git_ls_files = Some \<lparr>returncode = 0, stdout = ''a.py\<newline>''\<rparr>,
      mkstemp = (\<lambda>existing. ''/tmp/tmpk3v9.xml''),
      spawn = (\<lambda>cmd existing. Some ([], 0, existing))\<rparr>"

text \<open>
  The surroundings of \<open>scenario_env\<close> with a failing script and with only the Python file
  reported by git, so that the group \<open>fhir\<close> resolves to no file under \<open>changed_only\<close>.
\<close>

definition python_only_env :: env where
  "python_only_env =
     (scenario_env 0 1 0 0)\<lparr>git_diff := Some \<lparr>returncode = 0, stdout = ''util/a.py\<newline>''\<rparr>\<rparr>"

section \<open>Evaluating the model\<close>

lemmas scenario_defs =
  scenario_env_def scenario_config_def scenario_state_def StepExecutor_def FileCollection_def

lemmas run_defs =
  execute_def resolve_def visit_def step_body_def steps_item_def step_files_def
  runExternalCommand_def runValidator_def popen_def unlink_def printer_write_def
  listing_def completed_truthy_def NL_def Let_def set_environ_def heading_def summary_def

section \<open>The value of execute\<close>

lemma step_body_Return:
  "step_body os self step_name ov s = (Return v, s') \<Longrightarrow> v = PyBool True"
  by (auto simp: step_body_def Let_def split: sum.splits if_splits option.splits prod.splits)

lemma for_step_name_Return:
  "for_step_name os self step_names ov s = (Return v, s') \<Longrightarrow> v = PyBool True"
proof (induction step_names arbitrary: ov s)
  case Nil
  then show ?case by simp
next
  case (Cons step_name rest)
  then show ?case
    by (auto split: prod.splits flow.splits dest: step_body_Return)
qed

text \<open>Whatever the steps do, no call of \<open>execute\<close> evaluates to \<open>False\<close>.\<close>

lemma execute_never_returns_False:
  "fst (execute os self step_names s) \<noteq> Inr (PyBool False)"
  by (auto simp: execute_def Let_def split: prod.splits option.splits flow.splits
           dest: for_step_name_Return)

text \<open>
  C1: a run of \<open>execute\<close> that does not stop at a step without files returns the
  conjunction of the results of the steps it ran.

  The code computes that conjunction in \<open>overall_success\<close> and prints the summary line from
  it, but ends without returning it. With the one step \<open>lint\<close>, whose script exits with 0
  (so that the step's own result is \<open>True\<close>), the call evaluates to \<open>None\<close> after printing
  that all checks succeeded; the command line then exits with status 1 and the web
  interface reports a failure.
\<close>

theorem execute_returns_None_after_successful_steps:
  "fst (runExternalCommand (scenario_env 0 0 0 0) ''pylint'' [''util/a.py'']
          (scenario_state True)) = Inr True
   \<and> fst (execute (scenario_env 0 0 0 0) (StepExecutor scenario_config) [''lint'']
            (scenario_state True)) = Inr PyNone
   \<and> last (console (snd (execute (scenario_env 0 0 0 0) (StepExecutor scenario_config)
                              [''lint''] (scenario_state True))))
       = ''All checks finished succesfully''
   \<and> exit_status PyNone = 1 \<and> reported_status PyNone = ''failure''"
  by (simp add: scenario_defs run_defs exit_status_def reported_status_def)

section \<open>The validator step\<close>

text \<open>
  C2: the result of a validator step with files is true exactly if the validator exits
  successfully and the analysis after it exits successfully.

  The code tests the return codes as truth values (\<open>if result_validator:\<close>,
  \<open>if result:\<close>), and a return code is true when it is not 0, whereas the script step
  compares with 0. When the validator exits with 0, the step's result is \<open>False\<close>, the
  warning about an error running the validator is printed and the analysis is never
  started; when the validator and the analysis both exit with 1, the result is \<open>True\<close>.
\<close>

theorem runValidator_reads_return_codes_inverted:
  "runValidator (scenario_env 0 0 0 0) (StepExecutor scenario_config) ''p''
       [''resources/p.xml''] (scenario_state True)
     = (Inr False,
        (scenario_state True)
          \<lparr>console := [validator_warning],
           disk := {''/tmp/tmpk3v9.xml''},
           launched := [Argv [''java'', ''-jar'', ''validator_cli.jar'', ''-ig'', ''qa'',
                              ''-ig'', ''resources'', ''-recurse'', ''-profile'', ''p'',
                              ''-output'', ''u'', ''resources/p.xml'']]\<rparr>)
   \<and> fst (runValidator (scenario_env 0 0 1 1) (StepExecutor scenario_config) ''p''
            [''resources/p.xml''] (scenario_state True)) = Inr True"
  by (simp add: scenario_defs run_defs)

text \<open>
  C6: the temporary file created for the validator's output is removed after both
  invocations, whatever their outcome.

  The file that \<open>mkstemp\<close> creates is never removed: \<open>out_file\<close> is rebound to the string
  \<open>'output.xml'\<close>, and \<open>out_file[1]\<close>, the path given to the validator, to the analysis and
  to \<open>os.unlink\<close>, is its second character \<open>u\<close>. After the call the file of \<open>mkstemp\<close>
  still exists, both when the analysis ran and when it did not.
\<close>

theorem runValidator_leaves_mkstemp_file:
  "disk (snd (runValidator (scenario_env 0 0 1 1) (StepExecutor scenario_config) ''p''
                [''resources/p.xml''] (scenario_state True))) = {''/tmp/tmpk3v9.xml''}
   \<and> disk (snd (runValidator (scenario_env 0 0 0 0) (StepExecutor scenario_config) ''p''
                  [''resources/p.xml''] (scenario_state True))) = {''/tmp/tmpk3v9.xml''}"
  by (simp add: scenario_defs run_defs)

section \<open>Resolving when git fails\<close>

text \<open>
  C4: with \<open>changed_only\<close>, \<open>resolve\<close> aborts when a git command is unavailable or exits
  with an error, instead of going on with a partial or empty change set.

  The code guards the change set with \<open>if committed and uncommitted\<close>, which is true of
  every \<open>CompletedProcess\<close>, and never looks at a return code. When both git commands exit
  with 128 and print nothing, \<open>resolve\<close> returns normally with every file list empty,
  although glob matches a file for each group; \<open>execute\<close> then finds nothing to check and
  returns \<open>True\<close>.
\<close>

theorem resolve_completes_when_git_fails:
  "resolve (scenario_env 128 0 0 0) (FileCollection scenario_config True)
     = (None, FileCollection scenario_config True)
   \<and> files (FileCollection scenario_config True) ''unit'' = Some []
   \<and> files (FileCollection scenario_config True) ''fhir'' = Some []
   \<and> fst (execute (scenario_env 128 0 0 0) (StepExecutor scenario_config)
            [''lint'', ''validate''] (scenario_state True)) = Inr (PyBool True)"
  by (simp add: scenario_defs run_defs fun_eq_iff)

section \<open>Invariants of the loops of resolve\<close>

lemma for_file_name_invariant:
  assumes "\<And>f w r w'. P w \<Longrightarrow> visit co n f w = (r, w') \<Longrightarrow> P w'"
  shows "P w \<Longrightarrow> for_file_name co n fs w = (r, w') \<Longrightarrow> P w'"
proof (induction fs arbitrary: w)
  case Nil
  then show ?case by simp
next
  case (Cons f fs)
  obtain r1 w1 where v: "visit co n f w = (r1, w1)" by (cases "visit co n f w")
  with Cons.prems(1) have "P w1" using assms by blast
  with Cons v show ?case by (cases r1) auto
qed

lemma for_pattern_invariant:
  assumes "\<And>f w r w'. P w \<Longrightarrow> visit co n f w = (r, w') \<Longrightarrow> P w'"
  shows "P w \<Longrightarrow> for_pattern g co n ps w = (r, w') \<Longrightarrow> P w'"
proof (induction ps arbitrary: w)
  case Nil
  then show ?case by simp
next
  case (Cons p ps)
  obtain r1 w1 where v: "for_file_name co n (g p) w = (r1, w1)"
    by (cases "for_file_name co n (g p) w")
  with Cons.prems(1) have "P w1" using for_file_name_invariant [of P co n] assms by blast
  with Cons v show ?case by (cases r1) auto
qed

lemma for_pattern_name_invariant:
  assumes "\<And>n f w r w'. P w \<Longrightarrow> visit co n f w = (r, w') \<Longrightarrow> P w'"
  shows "P w \<Longrightarrow> for_pattern_name g co groups w = (r, w') \<Longrightarrow> P w'"
proof (induction groups arbitrary: w)
  case Nil
  then show ?case by simp
next
  case (Cons group groups)
  obtain n ps where group: "group = (n, ps)" by (cases group)
  obtain r1 w1 where v: "for_pattern g co n (as_list ps) w = (r1, w1)"
    by (cases "for_pattern g co n (as_list ps) w")
  with Cons.prems(1) have "P w1" using for_pattern_invariant [of P co n] assms by blast
  with Cons v group show ?case by (cases r1) auto
qed

section \<open>Resolving twice\<close>

lemma visit_keys: "visit co n f w = (r, w') \<Longrightarrow> (fst w' k = None) = (fst w k = None)"
  by (cases w) (auto simp: visit_def split: if_splits option.splits)

lemma for_pattern_name_keys:
  assumes "for_pattern_name g co groups (d0, ch, comb) = (r, d, x, y)"
  shows "(d k = None) = (d0 k = None)"
proof -
  let ?P = "\<lambda>w :: walk. \<forall>k. (fst w k = None) = (d0 k = None)"
  have "?P (d, x, y)"
  proof (rule for_pattern_name_invariant [where P = ?P and co = co])
    show "?P (d0, ch, comb)" by simp
    show "for_pattern_name g co groups (d0, ch, comb) = (r, d, x, y)" by (rule assms)
    fix n f w r w'
    assume "?P w" and "visit co n f w = (r, w')"
    then show "?P w'" by (simp add: visit_keys)
  qed
  then show ?thesis by simp
qed

lemma resolve_shape:
  "\<exists>d. snd (resolve os self) = self\<lparr>files := d\<rparr> \<and> (\<forall>k. (d k = None) = (files self k = None))"
proof -
  let ?cleared = "\<lambda>k. map_option (\<lambda>_. []) (files self k)"
  have cleared: "(?cleared k = None) = (files self k = None)" for k by simp
  have loop: "(d k = None) = (files self k = None)"
    if "for_pattern_name (glob os) co (patterns self) (?cleared, ch, []) = (r, d, x, y)"
    for co ch r d x y k
    using for_pattern_name_keys [OF that, of k] cleared by simp
  have stop: "\<exists>d. self\<lparr>files := ?cleared\<rparr> = self\<lparr>files := d\<rparr> \<and> (\<forall>k. (d k = None) = (files self k = None))"
    using cleared by blast
  show ?thesis
  proof (cases "changed_only self")
    case False
    obtain r d x y where
      run: "for_pattern_name (glob os) False (patterns self) (?cleared, None, []) = (r, d, x, y)"
      using prod_cases4 by blast
    with False have "snd (resolve os self) = self\<lparr>files := d\<rparr>"
      by (simp add: resolve_def Let_def)
    with loop [OF run] show ?thesis by blast
  next
    case True
    show ?thesis
    proof (cases "git_diff os")
      case None
      with True stop show ?thesis by (simp add: resolve_def Let_def)
    next
      case (Some committed)
      note c = this
      show ?thesis
      proof (cases "git_ls_files os")
        case None
        with True c stop show ?thesis by (simp add: resolve_def Let_def)
      next
        case (Some uncommitted)
        obtain r d x y where
          run: "for_pattern_name (glob os) True (patterns self)
                  (?cleared, Some (listing committed uncommitted), []) = (r, d, x, y)"
          using prod_cases4 by blast
        with True c Some have "snd (resolve os self) = self\<lparr>files := d\<rparr>"
          by (simp add: resolve_def Let_def completed_truthy_def)
        with loop [OF run] show ?thesis by blast
      qed
    qed
  qed
qed

lemma resolve_same_keys:
  assumes "\<And>k. (d0 k = None) = (files self k = None)"
  shows "resolve os (self\<lparr>files := d0\<rparr>) = resolve os self"
proof -
  have eq: "map_option (\<lambda>_. []) (d0 k) = map_option (\<lambda>_. []) (files self k)" for k
    using assms [of k] by (cases "d0 k"; cases "files self k") auto
  show ?thesis
    by (simp add: resolve_def Let_def eq split: option.splits prod.splits)
qed

text \<open>
  C9: with the file system and the version control unchanged, calling \<open>resolve\<close> twice
  in a row under the same policy gives the same file lists, in the same order.

  The second call starts from the object that the first call left, and it ends the same
  way (with the same exception, if any) leaving the same object: the lists of the first
  call are discarded before anything is added.
\<close>

theorem resolve_twice:
  "resolve os (snd (resolve os self)) = resolve os self"
proof -
  obtain d where "snd (resolve os self) = self\<lparr>files := d\<rparr>"
    and "\<And>k. (d k = None) = (files self k = None)"
    using resolve_shape by blast
  then show ?thesis by (simp add: resolve_same_keys)
qed

section \<open>The full scan\<close>

lemma for_file_name_append:
  "for_file_name co n (xs @ ys) w =
     (case for_file_name co n xs w of
        (Some e, w') \<Rightarrow> (Some e, w')
      | (None, w') \<Rightarrow> for_file_name co n ys w')"
  by (induction xs arbitrary: w) (auto split: prod.splits option.splits)

lemma for_pattern_flat:
  "for_pattern g co n ps w = for_file_name co n (concat (map g ps)) w"
  by (induction ps arbitrary: w) (auto simp: for_file_name_append split: prod.splits option.splits)

text \<open>One file name under the full scan.\<close>

lemma visit_full:
  assumes "visit False n f (d, ch, comb) = (None, d', ch', comb')"
  shows "set comb' = insert f (set comb)"
    and "d k = Some l \<Longrightarrow> \<exists>l'. d' k = Some l' \<and> set l \<subseteq> set l'"
    and "f \<notin> set comb \<Longrightarrow> \<exists>l. d' n = Some l \<and> f \<in> set l"
  using assms by (auto simp: visit_def split: if_splits option.splits)

lemma for_file_name_full:
  assumes "for_file_name False n fs (d, ch, comb) = (None, d', ch', comb')"
  shows "set comb' = set comb \<union> set fs
         \<and> (\<forall>k l. d k = Some l \<longrightarrow> (\<exists>l'. d' k = Some l' \<and> set l \<subseteq> set l'))
         \<and> (\<forall>f \<in> set fs. f \<notin> set comb \<longrightarrow> (\<exists>l. d' n = Some l \<and> f \<in> set l))"
  using assms
proof (induction fs arbitrary: d ch comb)
  case Nil
  then show ?case by simp
next
  case (Cons f fs)
  obtain r1 d1 ch1 comb1 where v: "visit False n f (d, ch, comb) = (r1, d1, ch1, comb1)"
    using prod_cases4 by blast
  with Cons.prems have r1: "r1 = None" by (cases r1) auto
  with v Cons.prems have rest: "for_file_name False n fs (d1, ch1, comb1) = (None, d', ch', comb')"
    by simp
  note v1 = visit_full [OF v [unfolded r1]]
  note ih = Cons.IH [OF rest]
  have a: "set comb' = set comb \<union> set (f # fs)" using ih v1(1) by auto
  have b: "\<exists>l'. d' k = Some l' \<and> set l \<subseteq> set l'" if dk: "d k = Some l" for k l
  proof -
    obtain l1 where "d1 k = Some l1" "set l \<subseteq> set l1" using v1(2) [OF dk] by blast
    moreover then obtain l' where "d' k = Some l'" "set l1 \<subseteq> set l'" using ih by blast
    ultimately show ?thesis by blast
  qed
  have c: "\<exists>l. d' n = Some l \<and> x \<in> set l" if x: "x \<in> set (f # fs)" "x \<notin> set comb" for x
  proof (cases "x = f")
    case True
    then obtain l1 where "d1 n = Some l1" "x \<in> set l1" using v1(3) x by blast
    moreover then obtain l' where "d' n = Some l'" "set l1 \<subseteq> set l'" using ih by blast
    ultimately show ?thesis by blast
  next
    case False
    then have "x \<in> set fs" "x \<notin> set comb1" using x v1(1) by auto
    then show ?thesis using ih by blast
  qed
  from a b c show ?case by blast
qed

lemma for_pattern_name_full:
  assumes "for_pattern_name g False groups (d, ch, comb) = (None, d', ch', comb')"
  shows "(\<forall>k l. d k = Some l \<longrightarrow> (\<exists>l'. d' k = Some l' \<and> set l \<subseteq> set l'))
         \<and> (\<forall>p n ps. find (\<lambda>(n, ps). p \<in> set (matched g ps)) groups = Some (n, ps)
                  \<longrightarrow> p \<notin> set comb \<longrightarrow> (\<exists>l. d' n = Some l \<and> p \<in> set l))"
  using assms
proof (induction groups arbitrary: d ch comb)
  case Nil
  then show ?case by simp
next
  case (Cons group groups)
  obtain n0 ps0 where group: "group = (n0, ps0)" by (cases group)
  obtain r1 d1 ch1 comb1 where
    v: "for_file_name False n0 (matched g ps0) (d, ch, comb) = (r1, d1, ch1, comb1)"
    using prod_cases4 by blast
  with Cons.prems group have r1: "r1 = None"
    by (cases r1) (auto simp: for_pattern_flat matched_def)
  with v Cons.prems group have rest:
    "for_pattern_name g False groups (d1, ch1, comb1) = (None, d', ch', comb')"
    by (simp add: for_pattern_flat matched_def)
  note v1 = for_file_name_full [OF v [unfolded r1]]
  note ih = Cons.IH [OF rest]
  have b: "\<exists>l'. d' k = Some l' \<and> set l \<subseteq> set l'" if dk: "d k = Some l" for k l
  proof -
    obtain l1 where "d1 k = Some l1" "set l \<subseteq> set l1" using v1 dk by blast
    moreover then obtain l' where "d' k = Some l'" "set l1 \<subseteq> set l'" using ih by blast
    ultimately show ?thesis by blast
  qed
  have c: "\<exists>l. d' n = Some l \<and> p \<in> set l"
    if f: "find (\<lambda>(n, ps). p \<in> set (matched g ps)) (group # groups) = Some (n, ps)"
      and pc: "p \<notin> set comb" for p n ps
  proof (cases "p \<in> set (matched g ps0)")
    case True
    with f group have "n = n0" by simp
    moreover obtain l1 where "d1 n0 = Some l1" "p \<in> set l1" using v1 True pc by blast
    moreover then obtain l' where "d' n0 = Some l'" "set l1 \<subseteq> set l'" using ih by blast
    ultimately show ?thesis by blast
  next
    case False
    with f group have "find (\<lambda>(n, ps). p \<in> set (matched g ps)) groups = Some (n, ps)" by simp
    moreover have "p \<notin> set comb1" using v1 False pc by blast
    ultimately show ?thesis using ih by blast
  qed
  from b c show ?case by blast
qed

text \<open>
  Under the full scan every list is free of repetitions and within \<open>combined\<close>, and the
  lists of two keys share no file name.
\<close>

lemma visit_full_invariant:
  assumes inv: "\<forall>k l. d k = Some l \<longrightarrow> distinct l \<and> set l \<subseteq> set comb"
    and dis: "\<forall>k1 k2 l1 l2. k1 \<noteq> k2 \<longrightarrow> d k1 = Some l1 \<longrightarrow> d k2 = Some l2
                \<longrightarrow> set l1 \<inter> set l2 = {}"
    and v: "visit False n f (d, ch, comb) = (r, d', ch', comb')"
  shows "(\<forall>k l. d' k = Some l \<longrightarrow> distinct l \<and> set l \<subseteq> set comb')
         \<and> (\<forall>k1 k2 l1 l2. k1 \<noteq> k2 \<longrightarrow> d' k1 = Some l1 \<longrightarrow> d' k2 = Some l2
                \<longrightarrow> set l1 \<inter> set l2 = {})"
proof (cases "f \<notin> set comb \<and> d n \<noteq> None")
  case False
  with v have "d' = d" "comb' = comb"
    by (auto simp: visit_def split: if_splits option.splits)
  with inv dis show ?thesis by simp
next
  case True
  then obtain l0 where l0: "d n = Some l0" and f: "f \<notin> set comb" by blast
  with v have d': "d' = d(n \<mapsto> l0 @ [f])" and comb': "comb' = comb @ [f]"
    by (auto simp: visit_def)
  have fresh: "f \<notin> set l" if "d k = Some l" for k l
    using inv that f by blast
  have one: "distinct l \<and> set l \<subseteq> set comb'" if "d' k = Some l" for k l
  proof (cases "k = n")
    case True
    with that d' have "l = l0 @ [f]" by simp
    with inv l0 fresh [OF l0] comb' show ?thesis by auto
  next
    case False
    with that d' have "d k = Some l" by simp
    with inv comb' show ?thesis by auto
  qed
  have two: "set l1 \<inter> set l2 = {}"
    if ne: "k1 \<noteq> k2" and a: "d' k1 = Some l1" and b: "d' k2 = Some l2" for k1 k2 l1 l2
  proof -
    consider "k1 = n" "k2 \<noteq> n" | "k2 = n" "k1 \<noteq> n" | "k1 \<noteq> n" "k2 \<noteq> n"
      using ne by blast
    then show ?thesis
    proof cases
      case 1
      with a b d' have l1: "l1 = l0 @ [f]" and l2: "d k2 = Some l2" by simp_all
      from dis 1 l0 l2 have "set l0 \<inter> set l2 = {}" by blast
      with l1 fresh [OF l2] show ?thesis by auto
    next
      case 2
      with a b d' have l2: "l2 = l0 @ [f]" and l1: "d k1 = Some l1" by simp_all
      from dis 2 l0 l1 have "set l1 \<inter> set l0 = {}" by blast
      with l2 fresh [OF l1] show ?thesis by auto
    next
      case 3
      with a b d' have "d k1 = Some l1" "d k2 = Some l2" by simp_all
      with dis ne show ?thesis by blast
    qed
  qed
  from one two show ?thesis by blast
qed

section \<open>The changed files\<close>

lemma count_list_remove1:
  "x \<in> set xs \<Longrightarrow> count_list (remove1 x xs) y + (if x = y then 1 else 0) = count_list xs y"
  by (induction xs) auto

text \<open>
  With \<open>changed_only\<close>, a file name is in a list and in what remains of \<open>changed_files\<close>
  together at most as often as \<open>changed_files\<close> held it at the start.
\<close>

lemma visit_changed_invariant:
  assumes inv: "\<forall>k l. d k = Some l \<longrightarrow> count_list l p + count_list ch p \<le> b"
    and v: "visit True n f (d, Some ch, comb) = (r, d', ch', comb')"
  shows "\<exists>c. ch' = Some c \<and> (\<forall>k l. d' k = Some l \<longrightarrow> count_list l p + count_list c p \<le> b)"
proof (cases "f \<in> set ch \<and> d n \<noteq> None")
  case False
  with v have "d' = d" "ch' = Some ch"
    by (auto simp: visit_def split: if_splits option.splits)
  with inv show ?thesis by simp
next
  case True
  then obtain l0 where l0: "d n = Some l0" and f: "f \<in> set ch" by blast
  with v have d': "d' = d(n \<mapsto> l0 @ [f])" and ch': "ch' = Some (remove1 f ch)"
    by (auto simp: visit_def)
  have "count_list l p + count_list (remove1 f ch) p \<le> b" if "d' k = Some l" for k l
  proof (cases "k = n")
    case True
    with that d' have "l = l0 @ [f]" by simp
    with inv l0 count_list_remove1 [OF f, of p] show ?thesis
      by (auto split: if_splits)
  next
    case False
    with that d' have "d k = Some l" by simp
    with inv count_list_remove1 [OF f, of p] show ?thesis
      by (fastforce split: if_splits)
  qed
  with ch' show ?thesis by blast
qed

section \<open>From the loops to resolve\<close>

lemma resolve_full_run:
  assumes "\<not> changed_only self" and "resolve os self = (r, self')"
  shows "\<exists>x y. for_pattern_name (glob os) False (patterns self)
                  (\<lambda>k. map_option (\<lambda>_. []) (files self k), None, []) = (r, files self', x, y)"
proof -
  obtain r1 d x y where
    run: "for_pattern_name (glob os) False (patterns self)
            (\<lambda>k. map_option (\<lambda>_. []) (files self k), None, []) = (r1, d, x, y)"
    using prod_cases4 by blast
  with assms have "r = r1" "self' = self\<lparr>files := d\<rparr>"
    by (auto simp: resolve_def Let_def)
  with run show ?thesis by simp
qed

lemma resolve_changed_run:
  assumes "changed_only self" and "git_diff os = Some committed"
    and "git_ls_files os = Some uncommitted" and "resolve os self = (r, self')"
  shows "\<exists>x y. for_pattern_name (glob os) True (patterns self)
                  (\<lambda>k. map_option (\<lambda>_. []) (files self k),
                   Some (listing committed uncommitted), []) = (r, files self', x, y)"
proof -
  obtain r1 d x y where
    run: "for_pattern_name (glob os) True (patterns self)
            (\<lambda>k. map_option (\<lambda>_. []) (files self k),
             Some (listing committed uncommitted), []) = (r1, d, x, y)"
    using prod_cases4 by blast
  with assms have "r = r1" "self' = self\<lparr>files := d\<rparr>"
    by (auto simp: resolve_def Let_def completed_truthy_def)
  with run show ?thesis by simp
qed

lemma resolve_without_git:
  assumes "changed_only self" and "git_diff os = None \<or> git_ls_files os = None"
    and "resolve os self = (r, self')"
  shows "files self' = (\<lambda>k. map_option (\<lambda>_. []) (files self k))"
  using assms by (auto simp: resolve_def Let_def split: option.splits)

lemma full_scan_invariant:
  assumes "\<not> changed_only self" and "resolve os self = (r, self')"
  shows "(\<forall>k l. files self' k = Some l \<longrightarrow> distinct l)
         \<and> (\<forall>k1 k2 l1 l2. k1 \<noteq> k2 \<longrightarrow> files self' k1 = Some l1 \<longrightarrow> files self' k2 = Some l2
                \<longrightarrow> set l1 \<inter> set l2 = {})"
proof -
  let ?P = "\<lambda>w :: walk.
     (\<forall>k l. fst w k = Some l \<longrightarrow> distinct l \<and> set l \<subseteq> set (snd (snd w)))
     \<and> (\<forall>k1 k2 l1 l2. k1 \<noteq> k2 \<longrightarrow> fst w k1 = Some l1 \<longrightarrow> fst w k2 = Some l2
            \<longrightarrow> set l1 \<inter> set l2 = {})"
  obtain x y where
    run: "for_pattern_name (glob os) False (patterns self)
            (\<lambda>k. map_option (\<lambda>_. []) (files self k), None, []) = (r, files self', x, y)"
    using resolve_full_run [OF assms] by blast
  have "?P (files self', x, y)"
  proof (rule for_pattern_name_invariant [where P = ?P and co = False, OF _ _ run])
    show "?P (\<lambda>k. map_option (\<lambda>_. []) (files self k), None, [])" by auto
    fix n f w r w'
    assume w: "?P w" and v: "visit False n f w = (r, w')"
    obtain d ch comb where [simp]: "w = (d, ch, comb)" using prod_cases3 by blast
    obtain d' ch' comb' where [simp]: "w' = (d', ch', comb')" using prod_cases3 by blast
    show "?P w'"
      using visit_full_invariant [of d comb n f ch r d' ch' comb'] w v by simp
  qed
  then show ?thesis by simp
qed

lemma changed_only_invariant:
  assumes "changed_only self" and "resolve os self = (r, self')" and "files self' g = Some l"
  shows "count_list l p \<le> count_list (reported os) p"
proof (cases "git_diff os = None \<or> git_ls_files os = None")
  case True
  from resolve_without_git [OF assms(1) True assms(2)] assms(3) have "l = []" by auto
  then show ?thesis by simp
next
  case False
  then obtain committed uncommitted where
    git: "git_diff os = Some committed" "git_ls_files os = Some uncommitted" by auto
  let ?ch0 = "listing committed uncommitted"
  let ?P = "\<lambda>w :: walk. \<exists>c. fst (snd w) = Some c
     \<and> (\<forall>k l. fst w k = Some l \<longrightarrow> count_list l p + count_list c p \<le> count_list ?ch0 p)"
  obtain x y where
    run: "for_pattern_name (glob os) True (patterns self)
            (\<lambda>k. map_option (\<lambda>_. []) (files self k), Some ?ch0, []) = (r, files self', x, y)"
    using resolve_changed_run [OF assms(1) git assms(2)] by blast
  have "?P (files self', x, y)"
  proof (rule for_pattern_name_invariant [where P = ?P and co = True, OF _ _ run])
    show "?P (\<lambda>k. map_option (\<lambda>_. []) (files self k), Some ?ch0, [])" by auto
    fix n f w r w'
    assume w: "?P w" and v: "visit True n f w = (r, w')"
    obtain d ch comb where [simp]: "w = (d, ch, comb)" using prod_cases3 by blast
    obtain d' ch' comb' where [simp]: "w' = (d', ch', comb')" using prod_cases3 by blast
    from w obtain c where c: "ch = Some c"
      and inv: "\<forall>k l. d k = Some l \<longrightarrow> count_list l p + count_list c p \<le> count_list ?ch0 p"
      by auto
    show "?P w'"
      using visit_changed_invariant [OF inv, of n f comb r d' ch' comb'] v c by simp
  qed
  with assms(3) have "count_list l p \<le> count_list ?ch0 p" by fastforce
  with git show ?thesis by (simp add: reported_def)
qed

lemmas overlap_defs = overlap_env_def overlap_config_def FileCollection_def


section \<open>The full scan returns\<close>

lemma for_file_name_full_returns:
  "d n \<noteq> None \<Longrightarrow> fst (for_file_name False n fs (d, ch, comb)) = None"
proof (induction fs arbitrary: d ch comb)
  case Nil
  then show ?case by simp
next
  case (Cons f fs)
  then obtain l where l: "d n = Some l" by blast
  show ?case
  proof (cases "f \<in> set comb")
    case True
    with Cons show ?thesis by (simp add: visit_def)
  next
    case False
    with l have "visit False n f (d, ch, comb) = (None, d(n \<mapsto> l @ [f]), ch, comb @ [f])"
      by (simp add: visit_def)
    moreover have "fst (for_file_name False n fs (d(n \<mapsto> l @ [f]), ch, comb @ [f])) = None"
      by (rule Cons.IH) simp
    ultimately show ?thesis by simp
  qed
qed

lemma for_file_name_keys:
  assumes "for_file_name co n fs (d0, ch, comb) = (r, d, x, y)"
  shows "(d k = None) = (d0 k = None)"
proof -
  let ?P = "\<lambda>w :: walk. \<forall>k. (fst w k = None) = (d0 k = None)"
  have "?P (d, x, y)"
  proof (rule for_file_name_invariant [where P = ?P and co = co and n = n])
    show "?P (d0, ch, comb)" by simp
    show "for_file_name co n fs (d0, ch, comb) = (r, d, x, y)" by (rule assms)
    fix f w r w'
    assume "?P w" and "visit co n f w = (r, w')"
    then show "?P w'" by (simp add: visit_keys)
  qed
  then show ?thesis by simp
qed

lemma for_pattern_name_full_returns:
  "\<forall>(n, ps) \<in> set groups. d n \<noteq> None
   \<Longrightarrow> fst (for_pattern_name g False groups (d, ch, comb)) = None"
proof (induction groups arbitrary: d ch comb)
  case Nil
  then show ?case by simp
next
  case (Cons group groups)
  obtain n0 ps0 where group: "group = (n0, ps0)" by (cases group)
  obtain r1 d1 ch1 comb1 where
    v: "for_file_name False n0 (matched g ps0) (d, ch, comb) = (r1, d1, ch1, comb1)"
    using prod_cases4 by blast
  from Cons.prems group have "d n0 \<noteq> None" by simp
  then have "fst (for_file_name False n0 (matched g ps0) (d, ch, comb)) = None"
    by (rule for_file_name_full_returns)
  with v have r1: "r1 = None" by simp
  have "\<forall>(n, ps) \<in> set groups. d1 n \<noteq> None"
    using Cons.prems for_file_name_keys [OF v] by auto
  from Cons.IH [OF this, of ch1 comb1] v r1 group show ?case
    by (simp add: for_pattern_flat matched_def)
qed

lemma FileCollection_keys:
  "(fold (\<lambda>(pattern_name, _) d. d(pattern_name \<mapsto> [])) ps d0) k
     = (if k \<in> fst ` set ps then Some [] else d0 k)"
  by (induction ps arbitrary: d0) (auto split: prod.splits)

text \<open>On an object as the constructor makes it, the full scan raises nothing.\<close>

lemma resolve_full_returns:
  "fst (resolve os (FileCollection config False)) = None"
proof -
  let ?self = "FileCollection config False"
  have "\<forall>(n, ps) \<in> set (patterns ?self). map_option (\<lambda>_. []) (files ?self n) \<noteq> None"
    by (auto simp: FileCollection_def Let_def FileCollection_keys image_iff split: option.splits)
  then have "fst (for_pattern_name (glob os) False (patterns ?self)
                    (\<lambda>k. map_option (\<lambda>_. []) (files ?self k), None, [])) = None"
    by (rule for_pattern_name_full_returns)
  moreover obtain r d x y where
    "for_pattern_name (glob os) False (patterns ?self)
       (\<lambda>k. map_option (\<lambda>_. []) (files ?self k), None, []) = (r, d, x, y)"
    using prod_cases4 by blast
  moreover have "\<not> changed_only ?self" by (simp add: FileCollection_def Let_def)
  ultimately show ?thesis
    by (simp add: resolve_def Let_def)
qed

section \<open>Groups under the full scan\<close>

text \<open>
  C5: under the full scan the file lists of two different groups share no path, and a
  path that the patterns of several groups match is in the list of the group declared
  first among them.

  The first part holds however the call ends, the second when it returns, which it does
  on every object as the constructor makes it (\<open>resolve_full_returns\<close>).
\<close>

theorem full_scan_first_group_wins:
  assumes "\<not> changed_only self" and "resolve os self = (r, self')"
  shows "(\<forall>g1 g2 l1 l2. g1 \<noteq> g2 \<longrightarrow> files self' g1 = Some l1 \<longrightarrow> files self' g2 = Some l2
            \<longrightarrow> set l1 \<inter> set l2 = {})
         \<and> (r = None \<longrightarrow>
              (\<forall>p g ps. find (\<lambda>(n, ps). p \<in> set (matched (glob os) ps)) (patterns self)
                          = Some (g, ps)
                 \<longrightarrow> (\<exists>l. files self' g = Some l \<and> p \<in> set l)))"
proof -
  have "\<exists>l. files self' g = Some l \<and> p \<in> set l"
    if "r = None"
      and f: "find (\<lambda>(n, ps). p \<in> set (matched (glob os) ps)) (patterns self) = Some (g, ps)"
    for p g ps
  proof -
    obtain x y where
      "for_pattern_name (glob os) False (patterns self)
         (\<lambda>k. map_option (\<lambda>_. []) (files self k), None, []) = (None, files self', x, y)"
      using resolve_full_run [OF assms] \<open>r = None\<close> by blast
    from for_pattern_name_full [OF this] f show ?thesis by simp
  qed
  with full_scan_invariant [OF assms] show ?thesis by blast
qed

theorem full_scan_first_group_wins_witness:
  "\<not> changed_only (FileCollection overlap_config False)
   \<and> fst (resolve overlap_env (FileCollection overlap_config False)) = None
   \<and> files (snd (resolve overlap_env (FileCollection overlap_config False))) ''unit''
       = Some [''a.py'', ''b.py'', ''a.txt'']
   \<and> files (snd (resolve overlap_env (FileCollection overlap_config False))) ''docs'' = Some []
   \<and> find (\<lambda>(n, ps). ''a.py'' \<in> set (matched (glob overlap_env) ps))
        (patterns (FileCollection overlap_config False)) = Some (''unit'', StrList [''*.py'', ''a.*''])
   \<and> set [''a.py'', ''b.py'', ''a.txt''] \<inter> set [] = ({} :: string set)
   \<and> (\<exists>l. files (snd (resolve overlap_env (FileCollection overlap_config False))) ''unit'' = Some l
          \<and> ''a.py'' \<in> set l)"
proof -
  let ?self = "FileCollection overlap_config False"
  let ?self' = "snd (resolve overlap_env ?self)"
  have h1: "\<not> changed_only ?self" by (simp add: FileCollection_def Let_def)
  have r: "fst (resolve overlap_env ?self) = None" by (rule resolve_full_returns)
  then have h2: "resolve overlap_env ?self = (None, ?self')" by (simp add: prod_eq_iff)
  have u: "files ?self' ''unit'' = Some [''a.py'', ''b.py'', ''a.txt'']"
    and d: "files ?self' ''docs'' = Some []"
    by (simp_all add: overlap_defs resolve_def visit_def Let_def)
  have f: "find (\<lambda>(n, ps). ''a.py'' \<in> set (matched (glob overlap_env) ps)) (patterns ?self)
             = Some (''unit'', StrList [''*.py'', ''a.*''])"
    by (simp add: overlap_defs matched_def)
  from full_scan_first_group_wins [OF h1 h2] u d f
  have "set [''a.py'', ''b.py'', ''a.txt''] \<inter> set [] = ({} :: string set)"
    and "\<exists>l. files ?self' ''unit'' = Some l \<and> ''a.py'' \<in> set l"
    by blast+
  with h1 r u d f show ?thesis by blast
qed

section \<open>Repetitions within one list\<close>

lemma distinct_count_list: "distinct xs \<Longrightarrow> count_list xs x \<le> 1"
  by (induction xs) auto

text \<open>
  What holds of every list after \<open>resolve\<close>: under the full scan it holds no path twice;
  with \<open>changed_only\<close> it holds a path at most as often as the two git listings together
  report it.
\<close>

lemma count_in_group_list:
  assumes "resolve os self = (r, self')" and "files self' g = Some l"
  shows "count_list l p \<le> (if changed_only self then count_list (reported os) p else 1)"
proof (cases "changed_only self")
  case True
  with changed_only_invariant [OF True assms] show ?thesis by simp
next
  case False
  from full_scan_invariant [OF False assms(1)] assms(2) have "distinct l" by blast
  then have "count_list l p \<le> 1"
    by (rule distinct_count_list)
  with False show ?thesis by simp
qed

text \<open>
  C8: under either policy no path is twice in the list of one group, whatever glob
  returns and whatever git reports, also when the patterns of a group overlap and when
  both git listings report a path.

  The code adds the files \<open>that have not been seen before\<close> (its comment above the loop
  over the patterns), and the full scan does so with \<open>combined\<close>. With \<open>changed_only\<close>
  the only record of what has been seen is \<open>changed_files.remove(file_name)\<close>, which takes
  out one occurrence. For a group with the patterns \<open>*.py\<close> and \<open>a.*\<close>, both matching
  \<open>a.py\<close>, and both git listings reporting \<open>a.py\<close>, the list of the group holds \<open>a.py\<close>
  twice; the full scan of the same files holds it once.
\<close>

theorem changed_only_repeats_path:
  "files (snd (resolve overlap_env (FileCollection overlap_config True))) ''unit''
     = Some [''a.py'', ''a.py'']
   \<and> \<not> distinct [''a.py'', ''a.py'']
   \<and> files (snd (resolve overlap_env (FileCollection overlap_config False))) ''unit''
       = Some [''a.py'', ''b.py'', ''a.txt'']"
  by (simp add: overlap_defs resolve_def visit_def listing_def completed_truthy_def NL_def Let_def)

section \<open>Reaching a step\<close>

lemma for_step_name_append:
  "for_step_name os self (xs @ ys) ov s =
     (case for_step_name os self xs ov s of
        (Continue ov', s') \<Rightarrow> for_step_name os self ys ov' s'
      | (Return v, s') \<Rightarrow> (Return v, s')
      | (Raise e, s') \<Rightarrow> (Raise e, s'))"
  by (induction xs arbitrary: ov s) (auto split: prod.splits flow.splits)

lemma printer_write_fields:
  "console (printer_write message s) = console s @ [message]"
  "launched (printer_write message s) = launched s"
  "disk (printer_write message s) = disk s"
  "file_collection (printer_write message s) = file_collection s"
  by (simp_all add: printer_write_def Let_def split: option.splits)

text \<open>
  A run that ends with \<open>None\<close> has resolved without exception and gone through every
  step of the loop; its last act is to write the summary.
\<close>

lemma execute_PyNone:
  assumes "execute os self step_names s = (Inr PyNone, s')"
  obtains fc ov s3 where
    "resolve os (file_collection (set_environ self s)) = (None, fc)"
    "for_step_name os self step_names True ((set_environ self s)\<lparr>file_collection := fc\<rparr>)
       = (Continue ov, s3)"
    "s' = printer_write (summary ov) s3"
proof -
  obtain r fc where res: "resolve os (file_collection (set_environ self s)) = (r, fc)"
    by (cases "resolve os (file_collection (set_environ self s))")
  with assms have r: "r = None" by (cases r) (auto simp: execute_def Let_def)
  obtain fl s3 where
    loop: "for_step_name os self step_names True ((set_environ self s)\<lparr>file_collection := fc\<rparr>)
             = (fl, s3)"
    by (cases "for_step_name os self step_names True ((set_environ self s)\<lparr>file_collection := fc\<rparr>)")
  show thesis
  proof (cases fl)
    case (Continue ov)
    with assms res r loop have "s' = printer_write (summary ov) s3"
      by (simp add: execute_def Let_def)
    with res r loop Continue that show thesis by blast
  next
    case (Return v)
    with loop have "v = PyBool True" using for_step_name_Return by blast
    with assms res r loop Return show thesis by (simp add: execute_def Let_def)
  next
    case (Raise e)
    with assms res r loop show thesis by (simp add: execute_def Let_def)
  qed
qed

section \<open>A step without files\<close>

text \<open>
  C3: when a requested step resolves to no files, \<open>execute\<close> writes that there is nothing
  to check and returns \<open>True\<close> at once, whatever the results of the steps before it,
  without running the steps after it and without starting a subprocess for it.

  The steps requested before it are those of a run that went through its whole loop
  (\<open>execute\<close> on them alone ends with \<open>None\<close>, leaving \<open>s'\<close>): then the run with the
  step and any steps after it returns \<open>True\<close>, its output is that of the steps before,
  the heading of the step and the message, and it has started the subprocesses of the
  steps before and no other.
\<close>

theorem execute_stops_at_step_without_files:
  assumes "execute os self before s = (Inr PyNone, s')"
    and "steps_item (steps self) step_name = Inr stp"
    and "step_files stp (files (file_collection s')) = Inr []"
  shows "fst (execute os self (before @ step_name # rest) s) = Inr (PyBool True)
         \<and> console (snd (execute os self (before @ step_name # rest) s))
             = butlast (console s') @ [heading step_name, ''Nothing to check, skipping'']
         \<and> launched (snd (execute os self (before @ step_name # rest) s)) = launched s'
         \<and> disk (snd (execute os self (before @ step_name # rest) s)) = disk s'"
proof -
  from assms(1) obtain fc ov s3 where
    res: "resolve os (file_collection (set_environ self s)) = (None, fc)"
    and loop: "for_step_name os self before True ((set_environ self s)\<lparr>file_collection := fc\<rparr>)
                 = (Continue ov, s3)"
    and s': "s' = printer_write (summary ov) s3"
    by (rule execute_PyNone)
  let ?s4 = "printer_write ''Nothing to check, skipping'' (printer_write (heading step_name) s3)"
  from assms(3) s' have "step_files stp (files (file_collection s3)) = Inr []"
    by (simp add: printer_write_fields)
  with assms(2) have "step_body os self step_name ov s3 = (Return (PyBool True), ?s4)"
    by (simp add: step_body_def Let_def printer_write_fields)
  with res loop have "execute os self (before @ step_name # rest) s = (Inr (PyBool True), ?s4)"
    by (simp add: execute_def Let_def for_step_name_append)
  with s' show ?thesis by (simp add: printer_write_fields)
qed

theorem execute_stops_at_step_without_files_witness:
  "execute python_only_env (StepExecutor scenario_config) [''lint''] (scenario_state True)
     = (Inr PyNone,
        snd (execute python_only_env (StepExecutor scenario_config) [''lint''] (scenario_state True)))
   \<and> last (console (snd (execute python_only_env (StepExecutor scenario_config) [''lint'']
                              (scenario_state True))))
       = ''Not all checks finished successfully''
   \<and> steps_item (steps (StepExecutor scenario_config)) ''validate''
       = Inr \<lparr>step_patterns = Some (Str ''fhir''),
              profile = Some ''http://example.org/fhir/StructureDefinition/p'', script = None\<rparr>
   \<and> step_files \<lparr>step_patterns = Some (Str ''fhir''),
                   profile = Some ''http://example.org/fhir/StructureDefinition/p'', script = None\<rparr>
         (files (file_collection (snd (execute python_only_env (StepExecutor scenario_config)
                                         [''lint''] (scenario_state True))))) = Inr []
   \<and> fst (execute python_only_env (StepExecutor scenario_config)
            [''lint'', ''validate'', ''lint''] (scenario_state True)) = Inr (PyBool True)
   \<and> launched (snd (execute python_only_env (StepExecutor scenario_config)
                        [''lint'', ''validate'', ''lint''] (scenario_state True)))
       = [Shell ''pylint util/a.py'']"
proof -
  let ?run = "execute python_only_env (StepExecutor scenario_config)"
  let ?validate = "\<lparr>step_patterns = Some (Str ''fhir''),
                    profile = Some ''http://example.org/fhir/StructureDefinition/p'', script = None\<rparr>"
  have "fst (?run [''lint''] (scenario_state True)) = Inr PyNone"
    by (simp add: python_only_env_def scenario_defs run_defs)
  then have h1: "?run [''lint''] (scenario_state True)
                   = (Inr PyNone, snd (?run [''lint''] (scenario_state True)))"
    by (simp add: prod_eq_iff)
  have c: "last (console (snd (?run [''lint''] (scenario_state True))))
             = ''Not all checks finished successfully''"
    and l: "launched (snd (?run [''lint''] (scenario_state True))) = [Shell ''pylint util/a.py'']"
    by (simp_all add: python_only_env_def scenario_defs run_defs)
  have h2: "steps_item (steps (StepExecutor scenario_config)) ''validate'' = Inr ?validate"
    by (simp add: scenario_defs steps_item_def)
  have h3: "step_files ?validate (files (file_collection (snd (?run [''lint''] (scenario_state True)))))
              = Inr []"
    by (simp add: python_only_env_def scenario_defs run_defs)
  from execute_stops_at_step_without_files [OF h1 h2 h3, of "[''lint'']"] l
  have "fst (?run [''lint'', ''validate'', ''lint''] (scenario_state True)) = Inr (PyBool True)"
    and "launched (snd (?run [''lint'', ''validate'', ''lint''] (scenario_state True)))
           = [Shell ''pylint util/a.py'']"
    by simp_all
  with h1 c h2 h3 show ?thesis by blast
qed

section \<open>A step that is not declared\<close>

text \<open>
  C10: when a requested step name is not among the declared steps, \<open>execute\<close> raises
  \<open>KeyError\<close> on reaching it.

  This fails for a configuration without the key \<open>steps\<close>: \<open>self.steps\<close> is then the
  empty list, and indexing a list with a string raises \<open>TypeError\<close>.
\<close>

theorem execute_without_steps_raises_TypeError:
  "fst (execute (scenario_env 0 0 0 0) (StepExecutor (scenario_config\<lparr>cfg_steps := None\<rparr>))
          [''lint''] (scenario_state True))
     = Inl (TypeError ''list indices must be integers or slices, not str'')"
  by (simp add: scenario_defs run_defs)

text \<open>
  C10 as the code has it: when \<open>self.steps\<close> is the dict of the configuration and a
  requested step name is not a key of it, \<open>execute\<close> raises \<open>KeyError\<close> with that name on
  reaching it, after the steps requested before it have run; it writes no summary and
  runs no step after it.
\<close>

theorem execute_raises_KeyError:
  assumes "execute os self before s = (Inr PyNone, s')"
    and "steps self = StepsDict d" and "map_of d step_name = None"
  shows "fst (execute os self (before @ step_name # rest) s) = Inl (KeyError step_name)
         \<and> console (snd (execute os self (before @ step_name # rest) s)) = butlast (console s')
         \<and> launched (snd (execute os self (before @ step_name # rest) s)) = launched s'"
proof -
  from assms(1) obtain fc ov s3 where
    res: "resolve os (file_collection (set_environ self s)) = (None, fc)"
    and loop: "for_step_name os self before True ((set_environ self s)\<lparr>file_collection := fc\<rparr>)
                 = (Continue ov, s3)"
    and s': "s' = printer_write (summary ov) s3"
    by (rule execute_PyNone)
  from assms(2,3) have "step_body os self step_name ov s3 = (Raise (KeyError step_name), s3)"
    by (simp add: step_body_def steps_item_def)
  with res loop have "execute os self (before @ step_name # rest) s = (Inl (KeyError step_name), s3)"
    by (simp add: execute_def Let_def for_step_name_append)
  with s' show ?thesis by (simp add: printer_write_fields)
qed

theorem execute_raises_KeyError_witness:
  "execute (scenario_env 0 0 0 0) (StepExecutor scenario_config) [''lint''] (scenario_state True)
     = (Inr PyNone,
        snd (execute (scenario_env 0 0 0 0) (StepExecutor scenario_config) [''lint'']
               (scenario_state True)))
   \<and> steps (StepExecutor scenario_config) = StepsDict (the (cfg_steps scenario_config))
   \<and> map_of (the (cfg_steps scenario_config)) ''deploy'' = None
   \<and> fst (execute (scenario_env 0 0 0 0) (StepExecutor scenario_config)
            [''lint'', ''deploy'', ''validate''] (scenario_state True)) = Inl (KeyError ''deploy'')
   \<and> launched (snd (execute (scenario_env 0 0 0 0) (StepExecutor scenario_config)
                        [''lint'', ''deploy'', ''validate''] (scenario_state True)))
       = [Shell ''pylint util/a.py'']"
proof -
  let ?run = "execute (scenario_env 0 0 0 0) (StepExecutor scenario_config)"
  have "fst (?run [''lint''] (scenario_state True)) = Inr PyNone"
    by (simp add: scenario_defs run_defs)
  then have h1: "?run [''lint''] (scenario_state True)
                   = (Inr PyNone, snd (?run [''lint''] (scenario_state True)))"
    by (simp add: prod_eq_iff)
  have l: "launched (snd (?run [''lint''] (scenario_state True))) = [Shell ''pylint util/a.py'']"
    by (simp add: scenario_defs run_defs)
  have h2: "steps (StepExecutor scenario_config) = StepsDict (the (cfg_steps scenario_config))"
    by (simp add: scenario_defs)
  have h3: "map_of (the (cfg_steps scenario_config)) ''deploy'' = None"
    by (simp add: scenario_defs)
  from execute_raises_KeyError [OF h1 h2 h3, of "[''validate'']"] l
  have "fst (?run [''lint'', ''deploy'', ''validate''] (scenario_state True)) = Inl (KeyError ''deploy'')"
    and "launched (snd (?run [''lint'', ''deploy'', ''validate''] (scenario_state True)))
           = [Shell ''pylint util/a.py'']"
    by simp_all
  with h1 h2 h3 show ?thesis by blast
qed

section \<open>Translating colour codes\<close>

text \<open>
  A match of the colour pattern does not reach into text that starts with the escape
  character and a bracket, and a match of the reset pattern does not reach into text that
  starts with neither a bracket nor \<open>0\<close> nor \<open>m\<close>.
\<close>

lemma color_match_before_code:
  "color_match ((c # cs) @ ESC # CHR ''['' # s) = color_match (c # cs)"
  by (auto simp: color_match_def ESC_def NL_def split: list.splits)

lemma reset_match_before:
  "z \<noteq> CHR ''['' \<Longrightarrow> z \<noteq> CHR ''0'' \<Longrightarrow> z \<noteq> CHR ''m''
   \<Longrightarrow> reset_match ((c # cs) @ z # s) = reset_match (c # cs)"
  by (auto simp: reset_match_def split: list.splits)

lemma color_match_length: "color_match t = Some gs \<Longrightarrow> 7 \<le> length t"
  by (auto simp: color_match_def split: list.splits)

lemma reset_match_length: "reset_match t \<Longrightarrow> 4 \<le> length t"
  by (auto simp: reset_match_def split: list.splits)

lemma sub_color_before_code:
  "sub_color (a @ ESC # CHR ''['' # s) = sub_color a @ sub_color (ESC # CHR ''['' # s)"
proof (induction a rule: sub_color.induct)
  case 1
  then show ?case by simp
next
  case (2 c cs)
  show ?case
  proof (cases "color_match (c # cs)")
    case None
    with 2 show ?thesis
      using color_match_before_code [of c cs s] by simp
  next
    case (Some gs)
    obtain g1 g2 where gs: "gs = (g1, g2)" by (cases gs)
    from color_match_length [OF Some] have "6 \<le> length cs" by simp
    then have "drop 6 (cs @ ESC # CHR ''['' # s) = drop 6 cs @ ESC # CHR ''['' # s" by simp
    with 2(2) [OF Some gs [symmetric]] Some gs show ?thesis
      using color_match_before_code [of c cs s] by simp
  qed
qed

lemma sub_reset_before:
  assumes "z \<noteq> CHR ''[''" "z \<noteq> CHR ''0''" "z \<noteq> CHR ''m''"
  shows "sub_reset (a @ z # s) = sub_reset a @ sub_reset (z # s)"
proof (induction a rule: sub_reset.induct)
  case 1
  then show ?case by simp
next
  case (2 c cs)
  show ?case
  proof (cases "reset_match (c # cs)")
    case False
    with 2 show ?thesis
      using reset_match_before [OF assms, of c cs s] by simp
  next
    case True
    from reset_match_length [OF True] have "3 \<le> length cs" by simp
    then have "drop 3 (cs @ z # s) = drop 3 cs @ z # s" by simp
    with 2(1) [OF True] True show ?thesis
      using reset_match_before [OF assms, of c cs s] by simp
  qed
qed

lemma color_match_other: "c \<noteq> ESC \<Longrightarrow> color_match (c # cs) = None"
  by (simp add: color_match_def split: list.splits)

lemma reset_match_other: "c \<noteq> ESC \<Longrightarrow> \<not> reset_match (c # cs)"
  by (simp add: reset_match_def split: list.splits)

text \<open>Text without the escape character passes through both substitutions unchanged.\<close>

lemma sub_color_plain: "ESC \<notin> set a \<Longrightarrow> sub_color (a @ s) = a @ sub_color s"
  by (induction a) (auto simp: color_match_other)

lemma sub_reset_plain: "ESC \<notin> set a \<Longrightarrow> sub_reset (a @ s) = a @ sub_reset s"
  by (induction a) (auto simp: reset_match_other)

lemma sub_color_code:
  assumes "g = CHR ''0'' \<or> g = CHR ''1''" and "x \<noteq> NL"
  shows "sub_color (ESC # CHR ''['' # g # CHR '';'' # CHR ''3'' # x # CHR ''m'' # s)
           = ansiToHTML [g] [x] @ sub_color s"
  using assms by (auto simp: color_match_def)

lemma sub_color_reset:
  "sub_color (ESC # CHR ''['' # CHR ''0'' # CHR ''m'' # s)
     = ESC # sub_color (CHR ''['' # CHR ''0'' # CHR ''m'' # s)"
  by (simp add: color_match_def split: list.splits)

lemma sub_color_other:
  "sub_color (ESC # CHR ''['' # CHR ''1'' # CHR '';'' # CHR ''9'' # CHR ''9'' # CHR ''m'' # s)
     = ESC # sub_color (CHR ''['' # CHR ''1'' # CHR '';'' # CHR ''9'' # CHR ''9'' # CHR ''m'' # s)"
  by (simp add: color_match_def split: list.splits)

lemma sub_reset_reset:
  "sub_reset (ESC # CHR ''['' # CHR ''0'' # CHR ''m'' # s) = reset_tag @ sub_reset s"
  by (simp add: reset_match_def)

lemma sub_reset_other:
  "sub_reset (ESC # CHR ''['' # CHR ''1'' # s) = ESC # sub_reset (CHR ''['' # CHR ''1'' # s)"
  by (simp add: reset_match_def split: list.splits)

lemma ansiToHTML_red: "ansiToHTML ''1'' ''1'' = ''</span><span style='color: red'>''"
  by (simp add: ansiToHTML_def ANSI_TO_HTML_def)

lemma ansiToHTML_unknown:
  assumes "g = CHR ''0'' \<or> g = CHR ''1''" and "x \<notin> set ''01234567''"
  shows "ansiToHTML [g] [x] = []"
  using assms by (auto simp: ansiToHTML_def ANSI_TO_HTML_def)

lemma ESC_notin_tags:
  "ESC \<notin> set ''</span><span style='color: red'>''" "ESC \<notin> set ''[0m''" "ESC \<notin> set ''[1;99m''"
  by (simp_all add: ESC_def)


text \<open>The two codes of the claim, a code of another form, and a code with an unknown hue.\<close>

lemma rewrite_codes_plain: "ESC \<notin> set a \<Longrightarrow> rewrite_codes a = a"
  using sub_color_plain [of a "[]"] sub_reset_plain [of a "[]"] by (simp add: rewrite_codes_def)

lemma rewrite_codes_red:
  "rewrite_codes (a @ [ESC] @ ''[1;31m'' @ b)
     = rewrite_codes a @ ''</span><span style='color: red'>'' @ rewrite_codes b"
proof -
  have "sub_color (a @ [ESC] @ ''[1;31m'' @ b)
          = sub_color a @ ''</span><span style='color: red'>'' @ sub_color b"
    using sub_color_before_code [of a "''1;31m'' @ b"]
      sub_color_code [of "CHR ''1''" "CHR ''1''" b] ansiToHTML_red
    by (simp add: NL_def)
  moreover have "sub_reset (x @ ''</span><span style='color: red'>'' @ y)
          = sub_reset x @ ''</span><span style='color: red'>'' @ sub_reset y" for x y
    using sub_reset_before [of "CHR ''<''" x "''/span><span style='color: red'>'' @ y"]
      sub_reset_plain [OF ESC_notin_tags(1), of y]
    by simp
  ultimately show ?thesis by (simp add: rewrite_codes_def)
qed

lemma rewrite_codes_reset:
  "rewrite_codes (a @ [ESC] @ ''[0m'' @ b) = rewrite_codes a @ reset_tag @ rewrite_codes b"
proof -
  have "sub_color (a @ [ESC] @ ''[0m'' @ b) = sub_color a @ [ESC] @ ''[0m'' @ sub_color b"
    using sub_color_before_code [of a "''0m'' @ b"] sub_color_reset [of b]
      sub_color_plain [OF ESC_notin_tags(2), of b]
    by simp
  moreover have "sub_reset (x @ [ESC] @ ''[0m'' @ y) = sub_reset x @ reset_tag @ sub_reset y" for x y
    using sub_reset_before [of ESC x "''[0m'' @ y"] sub_reset_reset [of y]
    by (simp add: ESC_def)
  ultimately show ?thesis by (simp add: rewrite_codes_def)
qed

lemma rewrite_codes_other:
  "rewrite_codes (a @ [ESC] @ ''[1;99m'' @ b)
     = rewrite_codes a @ [ESC] @ ''[1;99m'' @ rewrite_codes b"
proof -
  have "sub_color (a @ [ESC] @ ''[1;99m'' @ b) = sub_color a @ [ESC] @ ''[1;99m'' @ sub_color b"
    using sub_color_before_code [of a "''1;99m'' @ b"] sub_color_other [of b]
      sub_color_plain [OF ESC_notin_tags(3), of b]
    by simp
  moreover have "sub_reset (x @ [ESC] @ ''[1;99m'' @ y)
          = sub_reset x @ [ESC] @ ''[1;99m'' @ sub_reset y" for x y
    using sub_reset_before [of ESC x "''[1;99m'' @ y"] sub_reset_other [of "'';99m'' @ y"]
      sub_reset_plain [OF ESC_notin_tags(3), of y]
    by (simp add: ESC_def)
  ultimately show ?thesis by (simp add: rewrite_codes_def)
qed

lemma sub_color_unknown:
  assumes "g = CHR ''0'' \<or> g = CHR ''1''" and "x \<notin> set ''01234567''" and "x \<noteq> NL"
  shows "sub_color (a @ [ESC, CHR ''['', g, CHR '';'', CHR ''3'', x, CHR ''m''] @ b)
           = sub_color a @ sub_color b"
  using sub_color_before_code [of a "[g, CHR '';'', CHR ''3'', x, CHR ''m''] @ b"]
    sub_color_code [OF assms(1,3), of b] ansiToHTML_unknown [OF assms(1,2)]
  by simp

lemma printer_write_socket:
  assumes "socket s = Some ws" and "\<not> closed ws"
  shows "socket (printer_write message s) = Some (ws\<lparr>sent := sent ws @ [html_msg message]\<rparr>)"
  using assms by (simp add: printer_write_def Let_def)


text \<open>
  A code \<open>ESC[G;DXm\<close> whose \<open>D\<close> is not \<open>3\<close> matches neither pattern: it stays where it is
  between the rewritten text before and after it.
\<close>

lemma sub_color_unmatched:
  assumes "d \<noteq> CHR ''3''" and "ESC \<notin> set [g, d, x]"
  shows "sub_color (ESC # CHR ''['' # g # CHR '';'' # d # x # CHR ''m'' # s)
           = ESC # CHR ''['' # g # CHR '';'' # d # x # CHR ''m'' # sub_color s"
proof -
  have "color_match (ESC # CHR ''['' # g # CHR '';'' # d # x # CHR ''m'' # s) = None"
    using assms(1) by (simp add: color_match_def)
  moreover have "ESC \<notin> set [CHR ''['', g, CHR '';'', d, x, CHR ''m'']"
    using assms(2) by (simp add: ESC_def)
  from sub_color_plain [OF this, of s]
  have "sub_color (CHR ''['' # g # CHR '';'' # d # x # CHR ''m'' # s)
          = CHR ''['' # g # CHR '';'' # d # x # CHR ''m'' # sub_color s" by simp
  ultimately show ?thesis by simp
qed

lemma sub_reset_unmatched:
  assumes "ESC \<notin> set [g, d, x]"
  shows "sub_reset (ESC # CHR ''['' # g # CHR '';'' # d # x # CHR ''m'' # s)
           = ESC # CHR ''['' # g # CHR '';'' # d # x # CHR ''m'' # sub_reset s"
proof -
  have "\<not> reset_match (ESC # CHR ''['' # g # CHR '';'' # d # x # CHR ''m'' # s)"
    by (simp add: reset_match_def)
  moreover have "ESC \<notin> set [CHR ''['', g, CHR '';'', d, x, CHR ''m'']"
    using assms by (simp add: ESC_def)
  from sub_reset_plain [OF this, of s]
  have "sub_reset (CHR ''['' # g # CHR '';'' # d # x # CHR ''m'' # s)
          = CHR ''['' # g # CHR '';'' # d # x # CHR ''m'' # sub_reset s" by simp
  ultimately show ?thesis by simp
qed

lemma rewrite_codes_unmatched:
  assumes "d \<noteq> CHR ''3''" and "ESC \<notin> set [g, d, x]"
  shows "rewrite_codes (a @ [ESC, CHR ''['', g, CHR '';'', d, x, CHR ''m''] @ b)
           = rewrite_codes a @ [ESC, CHR ''['', g, CHR '';'', d, x, CHR ''m''] @ rewrite_codes b"
proof -
  have "sub_color (a @ [ESC, CHR ''['', g, CHR '';'', d, x, CHR ''m''] @ b)
          = sub_color a @ [ESC, CHR ''['', g, CHR '';'', d, x, CHR ''m''] @ sub_color b"
    using sub_color_before_code [of a "[g, CHR '';'', d, x, CHR ''m''] @ b"]
      sub_color_unmatched [OF assms, of b]
    by simp
  moreover have "sub_reset (u @ [ESC, CHR ''['', g, CHR '';'', d, x, CHR ''m''] @ v)
          = sub_reset u @ [ESC, CHR ''['', g, CHR '';'', d, x, CHR ''m''] @ sub_reset v" for u v
    using sub_reset_before [of ESC u "[CHR ''['', g, CHR '';'', d, x, CHR ''m''] @ v"]
      sub_reset_unmatched [OF assms(2), of v]
    by (simp add: ESC_def)
  ultimately show ?thesis by (simp add: rewrite_codes_def)
qed

text \<open>
  C7: with an open listener attached, \<open>write\<close> turns \<open>ESC[1;31m\<close> into the markup that
  closes the current span and opens a red one, \<open>ESC[0m\<close> into the markup that closes the
  current span and opens one in the default colour, and every code it does not know, such
  as \<open>ESC[1;99m\<close>, into the empty string.

  The last part fails: the pattern matches only codes of the form \<open>ESC[0;3Xm\<close> and
  \<open>ESC[1;3Xm\<close>, so \<open>ESC[1;99m\<close> is no match and is sent on as it is.
\<close>

theorem printer_write_keeps_unmatched_code:
  "socket (printer_write (''a'' @ [ESC] @ ''[1;99mb'')
             (setSocket (Some \<lparr>closed = False, sent = []\<rparr>) (scenario_state True)))
     = Some \<lparr>closed = False,
             sent = [''<span style='color: lightgrey;'>a'' @ [ESC] @ ''[1;99mb</span>'']\<rparr>
   \<and> ''<span style='color: lightgrey;'>a'' @ [ESC] @ ''[1;99mb</span>''
       \<noteq> ''<span style='color: lightgrey;'>ab</span>''"
  by (simp add: printer_write_def setSocket_def scenario_state_def html_msg_def rewrite_codes_def
        color_match_def reset_match_def ESC_def Let_def)

text \<open>
  C7 as the code has it. With an open listener attached, \<open>write\<close> sends every line,
  rewritten, inside a span of the default colour. In a line \<open>a ESC[1;31m b ESC[0m c\<close> the
  code \<open>ESC[1;31m\<close> is turned into the markup that closes the current span and opens a
  red one and \<open>ESC[0m\<close> into the markup that closes the current span and opens one in the
  default colour, the text \<open>a\<close>, \<open>b\<close>, \<open>c\<close> around them being rewritten in the same way;
  text that holds no escape character is left as it is. A code \<open>ESC[0;3Xm\<close> or
  \<open>ESC[1;3Xm\<close> whose \<open>X\<close> is none of the digits 0 to 7 (nor a newline) is turned into the
  empty string by the substitution of the colours, and text without escape characters
  around it is sent unchanged. A code \<open>ESC[G;DXm\<close> whose \<open>D\<close> is not \<open>3\<close> (\<open>G\<close>, \<open>D\<close>, \<open>X\<close>
  not the escape character), such as \<open>ESC[1;99m\<close>, yields no tag and is not removed: it
  is sent on unchanged between the rewritten text around it.
\<close>

theorem printer_write_translates_codes:
  assumes "socket s = Some ws" and "\<not> closed ws"
    and "g = CHR ''0'' \<or> g = CHR ''1''" and "x \<notin> set ''01234567''" and "x \<noteq> NL"
    and "d \<noteq> CHR ''3''" and "ESC \<notin> set [h, d, y]"
  shows "socket (printer_write line s)
           = Some (ws\<lparr>sent := sent ws @
                      [''<span style='color: lightgrey;'>'' @ rewrite_codes line @ ''</span>'']\<rparr>)
         \<and> rewrite_codes (a @ [ESC] @ ''[1;31m'' @ b @ [ESC] @ ''[0m'' @ c)
             = rewrite_codes a @ ''</span><span style='color: red'>'' @ rewrite_codes b
                 @ ''</span><span style='color: lightgrey'>'' @ rewrite_codes c
         \<and> socket (printer_write (a @ [ESC] @ ''[1;31m'' @ b @ [ESC] @ ''[0m'' @ c) s)
             = Some (ws\<lparr>sent := sent ws @
                        [''<span style='color: lightgrey;'>'' @ rewrite_codes a
                           @ ''</span><span style='color: red'>'' @ rewrite_codes b
                           @ ''</span><span style='color: lightgrey'>'' @ rewrite_codes c
                           @ ''</span>'']\<rparr>)
         \<and> (ESC \<notin> set a \<longrightarrow> rewrite_codes a = a)
         \<and> sub_color (a @ [ESC, CHR ''['', g, CHR '';'', CHR ''3'', x, CHR ''m''] @ b)
             = sub_color a @ sub_color b
         \<and> (ESC \<notin> set a \<and> ESC \<notin> set b \<longrightarrow>
              socket (printer_write (a @ [ESC, CHR ''['', g, CHR '';'', CHR ''3'', x, CHR ''m''] @ b) s)
                = Some (ws\<lparr>sent := sent ws @
                           [''<span style='color: lightgrey;'>'' @ a @ b @ ''</span>'']\<rparr>))
         \<and> socket (printer_write (a @ [ESC] @ ''[1;99m'' @ b) s)
             = Some (ws\<lparr>sent := sent ws @
                        [''<span style='color: lightgrey;'>'' @ rewrite_codes a @ [ESC] @ ''[1;99m''
                           @ rewrite_codes b @ ''</span>'']\<rparr>)
         \<and> socket (printer_write (a @ [ESC, CHR ''['', h, CHR '';'', d, y, CHR ''m''] @ b) s)
             = Some (ws\<lparr>sent := sent ws @
                        [''<span style='color: lightgrey;'>'' @ rewrite_codes a
                           @ [ESC, CHR ''['', h, CHR '';'', d, y, CHR ''m'']
                           @ rewrite_codes b @ ''</span>'']\<rparr>)"
proof -
  note sock = printer_write_socket [OF assms(1,2)]
  note unknown = sub_color_unknown [OF assms(3,4,5)]
  have zero: "socket (printer_write line s)
                = Some (ws\<lparr>sent := sent ws @
                           [''<span style='color: lightgrey;'>'' @ rewrite_codes line @ ''</span>'']\<rparr>)"
    by (simp add: sock html_msg_def)
  have body: "rewrite_codes (a @ [ESC] @ ''[1;31m'' @ b @ [ESC] @ ''[0m'' @ c)
                = rewrite_codes a @ ''</span><span style='color: red'>'' @ rewrite_codes b
                    @ ''</span><span style='color: lightgrey'>'' @ rewrite_codes c"
    using rewrite_codes_red [of a "b @ [ESC] @ ''[0m'' @ c"] rewrite_codes_reset [of b c]
    by (simp add: reset_tag_def)
  then have one: "html_msg (a @ [ESC] @ ''[1;31m'' @ b @ [ESC] @ ''[0m'' @ c)
               = ''<span style='color: lightgrey;'>'' @ rewrite_codes a
                   @ ''</span><span style='color: red'>'' @ rewrite_codes b
                   @ ''</span><span style='color: lightgrey'>'' @ rewrite_codes c @ ''</span>''"
    by (simp add: html_msg_def)
  have two: "html_msg (a @ [ESC, CHR ''['', g, CHR '';'', CHR ''3'', x, CHR ''m''] @ b)
               = ''<span style='color: lightgrey;'>'' @ a @ b @ ''</span>''"
    if "ESC \<notin> set a" "ESC \<notin> set b"
  proof -
    from that have "sub_color a = a" "sub_color b = b" "sub_reset (a @ b) = a @ b"
      using sub_color_plain [of a "[]"] sub_color_plain [of b "[]"] sub_reset_plain [of "a @ b" "[]"]
      by simp_all
    with unknown [of a b] show ?thesis by (simp add: html_msg_def rewrite_codes_def)
  qed
  have three: "html_msg (a @ [ESC] @ ''[1;99m'' @ b)
                 = ''<span style='color: lightgrey;'>'' @ rewrite_codes a @ [ESC] @ ''[1;99m''
                     @ rewrite_codes b @ ''</span>''"
    using rewrite_codes_other [of a b] by (simp add: html_msg_def)
  have four: "html_msg (a @ [ESC, CHR ''['', h, CHR '';'', d, y, CHR ''m''] @ b)
                = ''<span style='color: lightgrey;'>'' @ rewrite_codes a
                    @ [ESC, CHR ''['', h, CHR '';'', d, y, CHR ''m''] @ rewrite_codes b @ ''</span>''"
    using rewrite_codes_unmatched [OF assms(6,7), of a b] by (simp add: html_msg_def)
  have a: "socket (printer_write (a @ [ESC] @ ''[1;31m'' @ b @ [ESC] @ ''[0m'' @ c) s)
             = Some (ws\<lparr>sent := sent ws @
                        [''<span style='color: lightgrey;'>'' @ rewrite_codes a
                           @ ''</span><span style='color: red'>'' @ rewrite_codes b
                           @ ''</span><span style='color: lightgrey'>'' @ rewrite_codes c
                           @ ''</span>'']\<rparr>)"
    using one by (simp add: sock)
  have b: "ESC \<notin> set a \<and> ESC \<notin> set b \<longrightarrow>
              socket (printer_write (a @ [ESC, CHR ''['', g, CHR '';'', CHR ''3'', x, CHR ''m''] @ b) s)
                = Some (ws\<lparr>sent := sent ws @
                           [''<span style='color: lightgrey;'>'' @ a @ b @ ''</span>'']\<rparr>)"
    using two by (simp add: sock)
  have c: "socket (printer_write (a @ [ESC] @ ''[1;99m'' @ b) s)
             = Some (ws\<lparr>sent := sent ws @
                        [''<span style='color: lightgrey;'>'' @ rewrite_codes a @ [ESC] @ ''[1;99m''
                           @ rewrite_codes b @ ''</span>'']\<rparr>)"
    using three by (simp add: sock)
  have d: "socket (printer_write (a @ [ESC, CHR ''['', h, CHR '';'', d, y, CHR ''m''] @ b) s)
             = Some (ws\<lparr>sent := sent ws @
                        [''<span style='color: lightgrey;'>'' @ rewrite_codes a
                           @ [ESC, CHR ''['', h, CHR '';'', d, y, CHR ''m'']
                           @ rewrite_codes b @ ''</span>'']\<rparr>)"
    using four by (simp add: sock)
  from zero body a rewrite_codes_plain [of a] unknown [of a b] b c d show ?thesis
    by blast
qed

theorem printer_write_translates_codes_witness:
  "socket (setSocket (Some \<lparr>closed = False, sent = []\<rparr>) (scenario_state True))
     = Some \<lparr>closed = False, sent = []\<rparr>
   \<and> \<not> closed \<lparr>closed = False, sent = []\<rparr>
   \<and> (CHR ''1'' = CHR ''0'' \<or> CHR ''1'' = CHR ''1'') \<and> CHR ''8'' \<notin> set ''01234567''
   \<and> CHR ''8'' \<noteq> NL
   \<and> CHR ''4'' \<noteq> CHR ''3'' \<and> ESC \<notin> set [CHR ''0'', CHR ''4'', CHR ''1'']
   \<and> ESC \<notin> set ''+++ '' \<and> ESC \<notin> set ''error''
   \<and> rewrite_codes ''+++ '' = ''+++ ''
   \<and> socket (printer_write (''+++ '' @ [ESC, CHR ''['', CHR ''1'', CHR '';'', CHR ''3'', CHR ''8'',
                                       CHR ''m''] @ ''error'')
                (setSocket (Some \<lparr>closed = False, sent = []\<rparr>) (scenario_state True)))
       = Some \<lparr>closed = False, sent = [''<span style='color: lightgrey;'>+++ error</span>'']\<rparr>
   \<and> socket (printer_write (''+++ '' @ [ESC] @ ''[1;31m'' @ ''error'' @ [ESC] @ ''[0m'' @ ''done'')
                (setSocket (Some \<lparr>closed = False, sent = []\<rparr>) (scenario_state True)))
       = Some \<lparr>closed = False,
               sent = [''<span style='color: lightgrey;'>'' @ rewrite_codes ''+++ ''
                         @ ''</span><span style='color: red'>'' @ rewrite_codes ''error''
                         @ ''</span><span style='color: lightgrey'>'' @ rewrite_codes ''done''
                         @ ''</span>'']\<rparr>
   \<and> socket (printer_write (''+++ '' @ [ESC, CHR ''['', CHR ''0'', CHR '';'', CHR ''4'', CHR ''1'',
                                       CHR ''m''] @ ''error'')
                (setSocket (Some \<lparr>closed = False, sent = []\<rparr>) (scenario_state True)))
       = Some \<lparr>closed = False,
               sent = [''<span style='color: lightgrey;'>'' @ rewrite_codes ''+++ ''
                         @ [ESC, CHR ''['', CHR ''0'', CHR '';'', CHR ''4'', CHR ''1'', CHR ''m'']
                         @ rewrite_codes ''error'' @ ''</span>'']\<rparr>"
proof -
  let ?s = "setSocket (Some \<lparr>closed = False, sent = []\<rparr>) (scenario_state True)"
  have h1: "socket ?s = Some \<lparr>closed = False, sent = []\<rparr>"
    by (simp add: setSocket_def)
  have h2: "\<not> closed \<lparr>closed = False, sent = []\<rparr>" by simp
  have h3: "CHR ''1'' = CHR ''0'' \<or> CHR ''1'' = CHR ''1''" by simp
  have h4: "CHR ''8'' \<notin> set ''01234567''" by simp
  have h5: "CHR ''8'' \<noteq> NL" by (simp add: NL_def)
  have h6: "CHR ''4'' \<noteq> CHR ''3''" by simp
  have h7: "ESC \<notin> set [CHR ''0'', CHR ''4'', CHR ''1'']" by (simp add: ESC_def)
  have p: "ESC \<notin> set ''+++ ''" "ESC \<notin> set ''error''"
    by (simp_all add: ESC_def)
  from printer_write_translates_codes
         [OF h1 h2 h3 h4 h5 h6 h7, of "''+++ ''" "''+++ ''" "''error''" "''done''"]
    h1 h2 h3 h4 h5 h6 h7 p
  show ?thesis by simp
qed

end
